theory Spec2Isabelle
  imports Complex_Main "HOL-Library.Word"
begin

unbundle bit_operations_syntax

chapter \<open>The wire-protocol clients of the minecraft module\<close>

text \<open>
  A shallow embedding of \<^verbatim>\<open>src/minecraft/lifecycle.py\<close> (class \<^verbatim>\<open>MinecraftPing\<close>
  and \<^verbatim>\<open>status\<close>) and of \<^verbatim>\<open>src/minecraft/daemon_rcon.py\<close>
  (\<^verbatim>\<open>daemon_rcon_command\<close>, \<^verbatim>\<open>DaemonRconClient\<close>, \<^verbatim>\<open>rcon_command\<close>).
  Python integers are \<open>int\<close>, \<^verbatim>\<open>bytes\<close> objects are lists of 8-bit words, a raised
  exception is the \<open>Inl\<close> of a sum, a loop that may run forever returns \<open>None\<close>.
\<close>

section \<open>Python values\<close>

type_synonym bytes = "8 word list"

text \<open>
  The exceptions that the modelled code can meet. \<open>ValueError\<close> stands for the class and
  its subclasses \<^verbatim>\<open>json.JSONDecodeError\<close> and \<^verbatim>\<open>UnicodeDecodeError\<close>;
  \<open>OSError\<close>, \<open>SocketTimeout\<close> and \<open>ConnectionError\<close> are the class \<^verbatim>\<open>OSError\<close>
  (alias \<^verbatim>\<open>socket.error\<close>) and two of its subclasses. \<open>HTTPException\<close> is
  \<^verbatim>\<open>http.client.HTTPException\<close> with its subclasses, \<^verbatim>\<open>InvalidURL\<close> among them. The
  message of a \<open>ConnectionError\<close> is kept as the case that built it.
\<close>

datatype conn_msg =
    AuthFailed
  | NoResponse
  | RconFailed
  | DaemonUnreachable
  | RemoteDisconnected

datatype exn =
    ValueError
  | StructError
  | OverflowError
  | AttributeError
  | TypeError
  | RecursionError
  | HTTPException
  | OSError
  | SocketTimeout
  | ConnectionError conn_msg

fun is_OSError :: "exn \<Rightarrow> bool" where
  "is_OSError OSError = True"
| "is_OSError SocketTimeout = True"
| "is_OSError (ConnectionError m) = True"
| "is_OSError e = False"

fun is_ValueError :: "exn \<Rightarrow> bool" where
  "is_ValueError ValueError = True"
| "is_ValueError e = False"

fun is_ConnectionError :: "exn \<Rightarrow> bool" where
  "is_ConnectionError (ConnectionError m) = True"
| "is_ConnectionError e = False"

text \<open>
  What \<^verbatim>\<open>json.loads\<close> returns. \<open>JNull\<close> is Python's \<^verbatim>\<open>None\<close>; a \<open>JObj\<close> lists the
  items of a \<^verbatim>\<open>dict\<close> in insertion order, its keys distinct. Of a float only its being
  zero is ever inspected.
\<close>

datatype json =
    JNull
  | JBool bool
  | JInt int
  | JFloat real
  | JStr string
  | JArr "json list"
  | JObj "(string \<times> json) list"

fun truthy :: "json \<Rightarrow> bool" where
  "truthy JNull = False"
| "truthy (JBool b) = b"
| "truthy (JInt i) = (i \<noteq> 0)"
| "truthy (JFloat r) = (r \<noteq> 0)"
| "truthy (JStr s) = (s \<noteq> [])"
| "truthy (JArr xs) = (xs \<noteq> [])"
| "truthy (JObj kvs) = (kvs \<noteq> [])"

text \<open>\<^verbatim>\<open>d.get(key, default)\<close>: the lookup in a dict, and the method, which only a dict has.\<close>

definition dict_get :: "(string \<times> json) list \<Rightarrow> string \<Rightarrow> json \<Rightarrow> json" where
  "dict_get kvs key dflt = (case map_of kvs key of Some v \<Rightarrow> v | None \<Rightarrow> dflt)"

fun py_get :: "json \<Rightarrow> string \<Rightarrow> json \<Rightarrow> exn + json" where
  "py_get (JObj kvs) key dflt = Inr (dict_get kvs key dflt)"
| "py_get v key dflt = Inl AttributeError"

text \<open>\<^verbatim>\<open>d[key]\<close> on a dict known to hold the key is the same lookup.\<close>

fun is_dict :: "json \<Rightarrow> bool" where
  "is_dict (JObj kvs) = True"
| "is_dict v = False"

text \<open>
  The items that \<^verbatim>\<open>for p in v\<close> visits: the elements of a list, the keys of a dict, the
  characters of a string; anything else is not iterable.
\<close>

fun py_iter :: "json \<Rightarrow> exn + json list" where
  "py_iter (JArr xs) = Inr xs"
| "py_iter (JObj kvs) = Inr (map (\<lambda>kv. JStr (fst kv)) kvs)"
| "py_iter (JStr s) = Inr (map (\<lambda>c. JStr [c]) s)"
| "py_iter v = Inl TypeError"

text \<open>\<^verbatim>\<open>xs[start:stop]\<close>: a negative index counts from the end, and both are clamped.\<close>

definition py_slice :: "'a list \<Rightarrow> int \<Rightarrow> int \<Rightarrow> 'a list" where
  "py_slice xs start stop =
     (let n = int (length xs);
          a = (if start < 0 then max (start + n) 0 else min start n);
          b = (if stop < 0 then max (stop + n) 0 else min stop n)
      in take (nat (b - a)) (drop (nat a) xs))"

text \<open>Sequencing of steps that may raise, and of steps that may also not return.\<close>

definition bind_exn :: "exn + 'a \<Rightarrow> ('a \<Rightarrow> exn + 'b) \<Rightarrow> exn + 'b" where
  "bind_exn m f = (case m of Inl e \<Rightarrow> Inl e | Inr x \<Rightarrow> f x)"

definition bind_res :: "(exn + 'a) option \<Rightarrow> ('a \<Rightarrow> (exn + 'b) option) \<Rightarrow> (exn + 'b) option" where
  "bind_res m f = (case m of None \<Rightarrow> None | Some (Inl e) \<Rightarrow> Some (Inl e) | Some (Inr x) \<Rightarrow> f x)"

text \<open>
  A \<^verbatim>\<open>str\<close> whose characters matter, the host name, is the list of its code points.
  \<^verbatim>\<open>s.encode("utf-8")\<close> raises \<^verbatim>\<open>UnicodeEncodeError\<close>, a \<^verbatim>\<open>ValueError\<close>, on a
  surrogate.
\<close>

type_synonym pystr = "nat list"

definition utf8_char :: "nat \<Rightarrow> exn + bytes" where
  "utf8_char c =
     (if c < 0x80 then Inr [of_nat c]
      else if c < 0x800 then Inr [of_nat (0xC0 + c div 64), of_nat (0x80 + c mod 64)]
      else if 0xD800 \<le> c \<and> c < 0xE000 then Inl ValueError
      else if c < 0x10000 then
        Inr [of_nat (0xE0 + c div 4096), of_nat (0x80 + c div 64 mod 64),
             of_nat (0x80 + c mod 64)]
      else
        Inr [of_nat (0xF0 + c div 262144), of_nat (0x80 + c div 4096 mod 64),
             of_nat (0x80 + c div 64 mod 64), of_nat (0x80 + c mod 64)])"

fun utf8_encode :: "pystr \<Rightarrow> exn + bytes" where
  "utf8_encode [] = Inr []"
| "utf8_encode (c # cs) =
     bind_exn (utf8_char c) (\<lambda>b.
     bind_exn (utf8_encode cs) (\<lambda>bs. Inr (b @ bs)))"

section \<open>The \<^verbatim>\<open>struct\<close> formats in use\<close>

text \<open>\<^verbatim>\<open>struct.pack("B", v)\<close>: one unsigned byte, \<^verbatim>\<open>struct.error\<close> out of range.\<close>

definition pack_B :: "int \<Rightarrow> exn + bytes" where
  "pack_B v = (if 0 \<le> v \<and> v \<le> 255 then Inr [word_of_int v] else Inl StructError)"

text \<open>\<^verbatim>\<open>struct.pack(">H", v)\<close>: 16 bits unsigned, most significant byte first.\<close>

definition pack_H :: "int \<Rightarrow> exn + bytes" where
  "pack_H v =
     (if 0 \<le> v \<and> v \<le> 65535 then Inr [word_of_int (v div 256), word_of_int (v mod 256)]
      else Inl StructError)"

fun le_bytes :: "nat \<Rightarrow> int \<Rightarrow> bytes" where
  "le_bytes 0 v = []"
| "le_bytes (Suc n) v = word_of_int (v mod 256) # le_bytes n (v div 256)"

fun le_int :: "bytes \<Rightarrow> int" where
  "le_int [] = 0"
| "le_int (b # bs) = uint b + 256 * le_int bs"

text \<open>\<^verbatim>\<open>struct.pack("<i", v)\<close>: 32 bits, two's complement, least significant byte first.\<close>

definition pack_i :: "int \<Rightarrow> exn + bytes" where
  "pack_i v =
     (if - (2 ^ 31) \<le> v \<and> v < 2 ^ 31 then Inr (le_bytes 4 (v mod 2 ^ 32))
      else Inl StructError)"

text \<open>\<^verbatim>\<open>struct.pack("<ii", a, b)\<close>.\<close>

definition pack_ii :: "int \<Rightarrow> int \<Rightarrow> exn + bytes" where
  "pack_ii a b =
     (case pack_i a of
        Inl e \<Rightarrow> Inl e
      | Inr x \<Rightarrow> (case pack_i b of Inl e \<Rightarrow> Inl e | Inr y \<Rightarrow> Inr (x @ y)))"

text \<open>\<^verbatim>\<open>struct.unpack("<i", raw)[0]\<close>: the buffer must hold exactly 4 bytes.\<close>

definition unpack_i :: "bytes \<Rightarrow> exn + int" where
  "unpack_i raw =
     (if length raw \<noteq> 4 then Inl StructError
      else (let u = le_int raw in Inr (if 2 ^ 31 \<le> u then u - 2 ^ 32 else u)))"

section \<open>Sockets\<close>

text \<open>
  A socket is its peer's script and a log. \<open>rx\<close> lists what the transport will hand to
  the successive \<^verbatim>\<open>recv\<close> calls: a segment of bytes, or a failure (a timeout, a reset).
  When the script is used up the peer has closed and \<^verbatim>\<open>recv\<close> returns \<^verbatim>\<open>b""\<close>.
  \<open>tx_script\<close> lists the outcome of the successive \<^verbatim>\<open>sendall\<close> calls (success once it
  is used up), \<open>resolve_script\<close> the outcome of the name resolution that \<^verbatim>\<open>connect\<close>
  starts with and \<open>connect_script\<close> the outcome of the connection itself. \<open>sent\<close> logs
  the buffers passed to \<^verbatim>\<open>sendall\<close>, \<open>closed\<close> tells whether \<^verbatim>\<open>close\<close> was called.
\<close>

datatype sock_err = SockTimeout | SockError

fun raised :: "sock_err \<Rightarrow> exn" where
  "raised SockTimeout = SocketTimeout"
| "raised SockError = OSError"

datatype rx_event = Data bytes | Fail sock_err

record sock =
  resolve_script :: "sock_err option"
  connect_script :: "sock_err option"
  tx_script :: "sock_err option list"
  rx :: "rx_event list"
  sent :: "bytes list"
  closed :: bool

text \<open>
  The conversion of the host argument by \<^verbatim>\<open>connect\<close>: an ASCII name is taken as it is,
  any other goes through the \<^verbatim>\<open>idna\<close> codec (the parameter \<open>idna\<close>, \<open>None\<close> when the
  codec fails); a failing codec and a null character are a \<^verbatim>\<open>TypeError\<close>.
\<close>

definition convert_host :: "(pystr \<Rightarrow> bytes option) \<Rightarrow> pystr \<Rightarrow> exn + bytes" where
  "convert_host idna host =
     (if list_all (\<lambda>c. c < 128) host then
        (if 0 \<in> set host then Inl TypeError else Inr (map of_nat host))
      else
        (case idna host of
           None \<Rightarrow> Inl TypeError
         | Some name \<Rightarrow> if 0 \<in> set name then Inl TypeError else Inr name))"

text \<open>
  \<^verbatim>\<open>sock.connect((host, port))\<close> in CPython's order: the host argument is converted,
  the port must fit a C \<^verbatim>\<open>int\<close>, the name is resolved, the port must lie in 0..65535,
  and then the connection is made. The two port checks raise \<^verbatim>\<open>OverflowError\<close>.
\<close>

definition sock_connect ::
  "(pystr \<Rightarrow> bytes option) \<Rightarrow> pystr \<Rightarrow> int \<Rightarrow> sock \<Rightarrow> (exn + unit) \<times> sock" where
  "sock_connect idna host port s =
     (case convert_host idna host of
        Inl e \<Rightarrow> (Inl e, s)
      | Inr name \<Rightarrow>
          if port < - (2 ^ 31) \<or> 2 ^ 31 \<le> port then (Inl OverflowError, s)
          else
            (case resolve_script s of
               Some err \<Rightarrow> (Inl (raised err), s)
             | None \<Rightarrow>
                 if port < 0 \<or> 65535 < port then (Inl OverflowError, s)
                 else
                   (case connect_script s of
                      Some err \<Rightarrow> (Inl (raised err), s)
                    | None \<Rightarrow> (Inr (), s))))"

definition sock_sendall :: "bytes \<Rightarrow> sock \<Rightarrow> (exn + unit) \<times> sock" where
  "sock_sendall buf s =
     (case tx_script s of
        [] \<Rightarrow> (Inr (), s\<lparr>sent := sent s @ [buf]\<rparr>)
      | None # outcomes \<Rightarrow> (Inr (), s\<lparr>tx_script := outcomes, sent := sent s @ [buf]\<rparr>)
      | Some err # outcomes \<Rightarrow> (Inl (raised err), s\<lparr>tx_script := outcomes\<rparr>))"

text \<open>\<^verbatim>\<open>sock.recv(bufsize)\<close>: at most \<open>bufsize\<close> bytes of the segment at hand.\<close>

definition sock_recv :: "nat \<Rightarrow> sock \<Rightarrow> (exn + bytes) \<times> sock" where
  "sock_recv bufsize s =
     (case rx s of
        [] \<Rightarrow> (Inr [], s)
      | Data c # events \<Rightarrow>
          (Inr (take bufsize c),
           s\<lparr>rx := (if drop bufsize c = [] then events else Data (drop bufsize c) # events)\<rparr>)
      | Fail err # events \<Rightarrow> (Inl (raised err), s\<lparr>rx := events\<rparr>))"

definition sock_close :: "sock \<Rightarrow> sock" where
  "sock_close s = s\<lparr>closed := True\<rparr>"

text \<open>The bytes that the peer delivers before it closes or the transport fails.\<close>

fun delivered :: "rx_event list \<Rightarrow> bytes" where
  "delivered [] = []"
| "delivered (Data c # events) = (if c = [] then [] else c @ delivered events)"
| "delivered (Fail err # events) = []"

fun rx_weight :: "rx_event \<Rightarrow> nat" where
  "rx_weight (Data c) = Suc (length c)"
| "rx_weight (Fail err) = 1"

definition rx_size :: "sock \<Rightarrow> nat" where
  "rx_size s = sum_list (map rx_weight (rx s))"

lemma sock_recv_progress:
  assumes "sock_recv bufsize s = (Inr chunk, s')" and "chunk \<noteq> []"
  shows "rx_size s' < rx_size s"
proof (cases "rx s")
  case Nil
  with assms show ?thesis by (simp add: sock_recv_def)
next
  case (Cons ev events)
  show ?thesis
  proof (cases ev)
    case (Data c)
    with Cons assms have chunk: "chunk = take bufsize c"
      and s': "s' = s\<lparr>rx := (if drop bufsize c = [] then events else Data (drop bufsize c) # events)\<rparr>"
      by (auto simp: sock_recv_def)
    from chunk assms(2) have pos: "0 < bufsize" and ne: "c \<noteq> []" by auto
    then have "length c - bufsize < length c" by simp
    with Cons Data s' pos show ?thesis by (auto simp: rx_size_def)
  next
    case (Fail err)
    with Cons assms show ?thesis by (simp add: sock_recv_def)
  qed
qed

section \<open>\<^verbatim>\<open>MinecraftPing\<close>: variable-length integers\<close>

text \<open>
  \<^verbatim>\<open>_encode_varint\<close>. The loop ends when the shifted value reaches 0; a value below
  \<open>- 2 ^ 32\<close> stays negative under \<^verbatim>\<open>>>\<close> and the loop never ends, which is \<open>None\<close> here.
\<close>

partial_function (option) encode_varint_loop :: "int \<Rightarrow> bytes \<Rightarrow> (exn + bytes) option" where
  "encode_varint_loop v result =
     (let byte = v AND 0x7F;
          v' = drop_bit 7 v;
          byte' = (if v' \<noteq> 0 then byte OR 0x80 else byte)
      in case pack_B byte' of
           Inl e \<Rightarrow> Some (Inl e)
         | Inr b \<Rightarrow>
             (let result' = result @ b
              in if v' = 0 then Some (Inr result') else encode_varint_loop v' result'))"

declare encode_varint_loop.simps [code]

definition encode_varint :: "int \<Rightarrow> (exn + bytes) option" where
  "encode_varint v = encode_varint_loop (if v < 0 then v + push_bit 32 1 else v) []"

text \<open>\<^verbatim>\<open>_read_varint\<close>: the loop, then the sign extension of bit 31.\<close>

function read_varint_loop :: "bytes \<Rightarrow> nat \<Rightarrow> int \<Rightarrow> nat \<Rightarrow> exn + (int \<times> nat)" where
  "read_varint_loop data offset result shift =
     (if offset \<ge> length data then Inl ValueError
      else
        (let byte = uint (data ! offset);
             offset' = offset + 1;
             result' = result OR push_bit shift (byte AND 0x7F)
         in if byte AND 0x80 = 0 then Inr (result', offset')
            else read_varint_loop data offset' result' (shift + 7)))"
  by pat_completeness auto
termination
  by (relation "measure (\<lambda>(data, offset, result, shift). length data - offset)") auto

declare read_varint_loop.simps [simp del]

definition read_varint :: "bytes \<Rightarrow> nat \<Rightarrow> exn + (int \<times> nat)" where
  "read_varint data offset =
     (case read_varint_loop data offset 0 0 of
        Inl e \<Rightarrow> Inl e
      | Inr (result, offset') \<Rightarrow>
          Inr (if result AND push_bit 31 1 \<noteq> 0 then result - push_bit 32 1 else result,
               offset'))"

section \<open>\<^verbatim>\<open>MinecraftPing\<close>: the status exchange\<close>

text \<open>
  \<^verbatim>\<open>_parse_response\<close>. The parameter \<open>loads\<close> is the library call
  \<^verbatim>\<open>json.loads(b.decode("utf-8"))\<close> on a slice of the buffer: a document, or what it
  raises. \<open>parse_response_try\<close> is the body of the \<^verbatim>\<open>try\<close>, \<open>parse_response\<close> adds the
  handler for \<^verbatim>\<open>ValueError\<close> and its subclasses.
\<close>

definition parse_response_try :: "(bytes \<Rightarrow> exn + json) \<Rightarrow> bytes \<Rightarrow> exn + json" where
  "parse_response_try loads data =
     (case read_varint data 0 of
        Inl e \<Rightarrow> Inl e
      | Inr (pkt_len, offset) \<Rightarrow>
          if int (length data) < int offset + pkt_len then Inr JNull
          else (case read_varint data offset of
                  Inl e \<Rightarrow> Inl e
                | Inr (pkt_id, offset) \<Rightarrow>
                    if pkt_id \<noteq> 0 then Inr JNull
                    else (case read_varint data offset of
                            Inl e \<Rightarrow> Inl e
                          | Inr (json_len, offset) \<Rightarrow>
                              loads (py_slice data (int offset) (int offset + json_len)))))"

definition parse_response :: "(bytes \<Rightarrow> exn + json) \<Rightarrow> bytes \<Rightarrow> exn + json" where
  "parse_response loads data =
     (case parse_response_try loads data of
        Inl e \<Rightarrow> if is_ValueError e then Inr JNull else Inl e
      | Inr parsed \<Rightarrow> Inr parsed)"

text \<open>The two packets that \<^verbatim>\<open>ping\<close> builds.\<close>

definition handshake_packet :: "pystr \<Rightarrow> int \<Rightarrow> (exn + bytes) option" where
  "handshake_packet host port =
     bind_res (encode_varint (- 1)) (\<lambda>protocol_version.
     bind_res (Some (utf8_encode host)) (\<lambda>host_bytes.
     bind_res (encode_varint (int (length host_bytes))) (\<lambda>host_len.
     bind_res (Some (pack_H port)) (\<lambda>port_bytes.
     bind_res (encode_varint 1) (\<lambda>next_state.
     bind_res (encode_varint 0) (\<lambda>packet_id.
       (let handshake_data =
              packet_id @ protocol_version @ host_len @ host_bytes @ port_bytes @ next_state
        in bind_res (encode_varint (int (length handshake_data))) (\<lambda>prefix.
             Some (Inr (prefix @ handshake_data))))))))))"

definition status_request_packet :: "(exn + bytes) option" where
  "status_request_packet =
     bind_res (encode_varint 1) (\<lambda>len.
     bind_res (encode_varint 0) (\<lambda>packet_id. Some (Inr (len @ packet_id))))"

text \<open>
  The \<^verbatim>\<open>while True\<close> loop of \<^verbatim>\<open>ping\<close>: an empty read leaves the loop, after which the
  socket is closed and \<^verbatim>\<open>None\<close> returned; a parse that raises or yields \<^verbatim>\<open>None\<close> goes
  on to the next read. A failing \<^verbatim>\<open>recv\<close> leaves the loop with its exception.
\<close>

function ping_loop :: "(bytes \<Rightarrow> exn + json) \<Rightarrow> bytes \<Rightarrow> sock \<Rightarrow> (exn + json) \<times> sock" where
  "ping_loop loads data s =
     (case sock_recv 4096 s of
        (Inl e, s') \<Rightarrow> (Inl e, s')
      | (Inr chunk, s') \<Rightarrow>
          if chunk = [] then (Inr JNull, sock_close s')
          else (case parse_response loads (data @ chunk) of
                  Inl e \<Rightarrow> ping_loop loads (data @ chunk) s'
                | Inr parsed \<Rightarrow>
                    if parsed \<noteq> JNull then (Inr parsed, sock_close s')
                    else ping_loop loads (data @ chunk) s'))"
  by pat_completeness auto
termination
proof (relation "measure (\<lambda>(loads, data, s). rx_size s)")
  show "wf (measure (\<lambda>(loads, data, s). rx_size s))" by simp
next
  fix loads :: "bytes \<Rightarrow> exn + json" and data s x1 s' chunk e
  assume "(x1, s') = sock_recv 4096 s" "x1 = Inr chunk" "chunk \<noteq> []"
  then show "((loads, data @ chunk, s'), (loads, data, s)) \<in> measure (\<lambda>(loads, data, s). rx_size s)"
    using sock_recv_progress [of 4096 s chunk s'] by simp
next
  fix loads :: "bytes \<Rightarrow> exn + json" and data s x1 s' chunk parsed
  assume "(x1, s') = sock_recv 4096 s" "x1 = Inr chunk" "chunk \<noteq> []"
  then show "((loads, data @ chunk, s'), (loads, data, s)) \<in> measure (\<lambda>(loads, data, s). rx_size s)"
    using sock_recv_progress [of 4096 s chunk s'] by simp
qed

declare ping_loop.simps [simp del]

text \<open>
  For stating what the loop returns: a buffer gives no document when its parse raises or
  yields \<^verbatim>\<open>None\<close>, and \<open>first_parse\<close> is the first document met when the chunks \<open>cs\<close>
  are appended to \<open>acc\<close> one after the other (\<open>JNull\<close> when there is none).
\<close>

definition no_document :: "(bytes \<Rightarrow> exn + json) \<Rightarrow> bytes \<Rightarrow> bool" where
  "no_document loads data =
     (case parse_response loads data of Inl e \<Rightarrow> True | Inr doc \<Rightarrow> doc = JNull)"

fun first_parse :: "(bytes \<Rightarrow> exn + json) \<Rightarrow> bytes \<Rightarrow> bytes list \<Rightarrow> json" where
  "first_parse loads acc [] = JNull"
| "first_parse loads acc (c # cs) =
     (case parse_response loads (acc @ c) of
        Inl e \<Rightarrow> first_parse loads (acc @ c) cs
      | Inr doc \<Rightarrow> if doc \<noteq> JNull then doc else first_parse loads (acc @ c) cs)"

text \<open>
  \<^verbatim>\<open>ping\<close>: \<open>ping_try\<close> is the body of the \<^verbatim>\<open>try\<close>, on the socket \<open>s0\<close> that
  \<^verbatim>\<open>socket.socket\<close> returned; \<open>ping\<close> adds the handler, which returns \<^verbatim>\<open>None\<close> for
  \<^verbatim>\<open>OSError\<close> and its subclasses and calls nothing. \<open>host\<close> is the \<^verbatim>\<open>str\<close> passed in.
\<close>

definition ping_try ::
  "(bytes \<Rightarrow> exn + json) \<Rightarrow> (pystr \<Rightarrow> bytes option) \<Rightarrow> pystr \<Rightarrow> int \<Rightarrow> sock \<Rightarrow>
   ((exn + json) \<times> sock) option" where
  "ping_try loads idna host port s0 =
     (case sock_connect idna host port s0 of
        (Inl e, s1) \<Rightarrow> Some (Inl e, s1)
      | (Inr u, s1) \<Rightarrow>
          (case handshake_packet host port of
             None \<Rightarrow> None
           | Some (Inl e) \<Rightarrow> Some (Inl e, s1)
           | Some (Inr handshake) \<Rightarrow>
               (case sock_sendall handshake s1 of
                  (Inl e, s2) \<Rightarrow> Some (Inl e, s2)
                | (Inr u, s2) \<Rightarrow>
                    (case status_request_packet of
                       None \<Rightarrow> None
                     | Some (Inl e) \<Rightarrow> Some (Inl e, s2)
                     | Some (Inr request) \<Rightarrow>
                         (case sock_sendall request s2 of
                            (Inl e, s3) \<Rightarrow> Some (Inl e, s3)
                          | (Inr u, s3) \<Rightarrow> Some (ping_loop loads [] s3))))))"

definition ping ::
  "(bytes \<Rightarrow> exn + json) \<Rightarrow> (pystr \<Rightarrow> bytes option) \<Rightarrow> pystr \<Rightarrow> int \<Rightarrow> sock \<Rightarrow>
   ((exn + json) \<times> sock) option" where
  "ping loads idna host port s0 =
     (case ping_try loads idna host port s0 of
        None \<Rightarrow> None
      | Some (Inl e, s) \<Rightarrow> Some (if is_OSError e then Inr JNull else Inl e, s)
      | Some (Inr parsed, s) \<Rightarrow> Some (Inr parsed, s))"

section \<open>\<^verbatim>\<open>status\<close>\<close>

text \<open>
  The dict that \<^verbatim>\<open>status\<close> returns, one constructor for each \<^verbatim>\<open>return\<close>; the fields
  of \<open>running\<close> are the keys that carry data (the \<^verbatim>\<open>message\<close> entry is a translated
  constant, and \<^verbatim>\<open>i18n.t\<close> without arguments raises nothing). \<open>config\<close> holds the three
  entries read from the caller's dict, \<open>cfg_port\<close> after \<^verbatim>\<open>int(port)\<close>.
\<close>

record running =
  pid :: json
  players_online :: json
  players_max :: json
  player_list :: "json list"
  version :: json
  protocol :: json
  motd :: json

datatype status_dict =
    Running running
  | Starting json
  | Stopped
  | CheckFailed exn

record config =
  cfg_pid :: json
  cfg_port :: int
  cfg_host :: pystr

text \<open>\<^verbatim>\<open>[p.get("name", "") for p in ...]\<close>.\<close>

fun sample_names :: "json list \<Rightarrow> exn + json list" where
  "sample_names [] = Inr []"
| "sample_names (p # ps) =
     bind_exn (py_get p ''name'' (JStr [])) (\<lambda>name.
     bind_exn (sample_names ps) (\<lambda>names. Inr (name # names)))"

text \<open>The block under \<^verbatim>\<open>if ping_result:\<close>.\<close>

definition status_online :: "json \<Rightarrow> json \<Rightarrow> exn + running" where
  "status_online pid_value ping_result =
     bind_exn (py_get ping_result ''players'' (JObj [])) (\<lambda>players.
     bind_exn (py_get ping_result ''version'' (JObj [])) (\<lambda>version_value.
     bind_exn (py_get ping_result ''description'' (JStr [])) (\<lambda>desc0.
     bind_exn (if is_dict desc0 then py_get desc0 ''text'' (JStr []) else Inr desc0) (\<lambda>desc.
     bind_exn (py_get players ''online'' (JInt 0)) (\<lambda>online.
     bind_exn (py_get players ''max'' (JInt 0)) (\<lambda>maxp.
     bind_exn (py_get players ''sample'' (JArr [])) (\<lambda>sample.
     bind_exn (py_iter sample) (\<lambda>entries.
     bind_exn (sample_names entries) (\<lambda>names.
     bind_exn (py_get version_value ''name'' (JStr ''unknown'')) (\<lambda>vname.
     bind_exn (py_get version_value ''protocol'' (JInt (- 1))) (\<lambda>proto.
       Inr \<lparr>pid = pid_value, players_online = online, players_max = maxp,
            player_list = names, version = vname, protocol = proto,
            motd = desc\<rparr>)))))))))))"

text \<open>
  \<^verbatim>\<open>status\<close>. \<open>os_kill\<close> is \<^verbatim>\<open>os.kill(pid, 0)\<close>: \<open>None\<close> when it returns, or what it
  raises. The outer handler turns every exception into the failure dict.
\<close>

definition status_of_ping :: "(json \<Rightarrow> exn option) \<Rightarrow> json \<Rightarrow> json \<Rightarrow> status_dict" where
  "status_of_ping os_kill pid_value ping_result =
     (if truthy ping_result then
        (case status_online pid_value ping_result of
           Inl e \<Rightarrow> CheckFailed e
         | Inr r \<Rightarrow> Running r)
      else if truthy pid_value then
        (case os_kill pid_value of
           None \<Rightarrow> Starting pid_value
         | Some e \<Rightarrow> if is_OSError e then Stopped else CheckFailed e)
      else Stopped)"

definition status ::
  "(bytes \<Rightarrow> exn + json) \<Rightarrow> (pystr \<Rightarrow> bytes option) \<Rightarrow> (json \<Rightarrow> exn option) \<Rightarrow> config \<Rightarrow> sock \<Rightarrow>
   (status_dict \<times> sock) option" where
  "status loads idna os_kill cfg s0 =
     (case ping loads idna (cfg_host cfg) (cfg_port cfg) s0 of
        None \<Rightarrow> None
      | Some (Inl e, s) \<Rightarrow> Some (CheckFailed e, s)
      | Some (Inr ping_result, s) \<Rightarrow> Some (status_of_ping os_kill (cfg_pid cfg) ping_result, s))"

text \<open>
  The end-to-end scenario: the text of the document a mock server replies with, the
  document it denotes, and a decoder that knows this text only.
\<close>

definition scenario_text :: bytes where
  "scenario_text =
     [
      0x7B, 0x22, 0x70, 0x6C, 0x61, 0x79, 0x65, 0x72, 0x73, 0x22, 0x3A, 0x7B,
      0x22, 0x6F, 0x6E, 0x6C, 0x69, 0x6E, 0x65, 0x22, 0x3A, 0x33, 0x2C, 0x22,
      0x6D, 0x61, 0x78, 0x22, 0x3A, 0x32, 0x30, 0x2C, 0x22, 0x73, 0x61, 0x6D,
      0x70, 0x6C, 0x65, 0x22, 0x3A, 0x5B, 0x7B, 0x22, 0x6E, 0x61, 0x6D, 0x65,
      0x22, 0x3A, 0x22, 0x53, 0x74, 0x65, 0x76, 0x65, 0x22, 0x7D, 0x5D, 0x7D,
      0x2C, 0x22, 0x76, 0x65, 0x72, 0x73, 0x69, 0x6F, 0x6E, 0x22, 0x3A, 0x7B,
      0x22, 0x6E, 0x61, 0x6D, 0x65, 0x22, 0x3A, 0x22, 0x31, 0x2E, 0x32, 0x31,
      0x22, 0x2C, 0x22, 0x70, 0x72, 0x6F, 0x74, 0x6F, 0x63, 0x6F, 0x6C, 0x22,
      0x3A, 0x37, 0x36, 0x37, 0x7D, 0x2C, 0x22, 0x64, 0x65, 0x73, 0x63, 0x72,
      0x69, 0x70, 0x74, 0x69, 0x6F, 0x6E, 0x22, 0x3A, 0x22, 0x41, 0x20, 0x53,
      0x65, 0x72, 0x76, 0x65, 0x72, 0x22, 0x7D
     ]"

definition scenario_document :: json where
  "scenario_document =
     JObj [(''players'', JObj [(''online'', JInt 3), (''max'', JInt 20),
                               (''sample'', JArr [JObj [(''name'', JStr ''Steve'')]])]),
           (''version'', JObj [(''name'', JStr ''1.21''), (''protocol'', JInt 767)]),
           (''description'', JStr ''A Server'')]"

definition scenario_loads :: "bytes \<Rightarrow> exn + json" where
  "scenario_loads b = (if b = scenario_text then Inr scenario_document else Inl ValueError)"

section \<open>\<^verbatim>\<open>rcon_command\<close>: the direct console connection\<close>

text \<open>\<^verbatim>\<open>_make_packet\<close>.\<close>

definition make_packet :: "int \<Rightarrow> int \<Rightarrow> bytes \<Rightarrow> exn + bytes" where
  "make_packet req_id pkt_type payload =
     bind_exn (pack_ii req_id pkt_type) (\<lambda>header.
       (let body = header @ payload @ [0, 0]
        in bind_exn (pack_i (int (length body))) (\<lambda>size_field. Inr (size_field @ body))))"

text \<open>
  The two \<^verbatim>\<open>while len(buf) < n\<close> loops of \<^verbatim>\<open>_read_packet\<close> are one function of the
  bound: \<open>Some\<close> of the buffer when the bound is reached, \<open>None\<close> for the \<^verbatim>\<open>return None\<close>
  on an empty read.
\<close>

function read_packet_loop :: "int \<Rightarrow> bytes \<Rightarrow> sock \<Rightarrow> (exn + bytes option) \<times> sock" where
  "read_packet_loop n buf s =
     (if int (length buf) < n then
        (case sock_recv (nat (n - int (length buf))) s of
           (Inl e, s') \<Rightarrow> (Inl e, s')
         | (Inr chunk, s') \<Rightarrow>
             if chunk = [] then (Inr None, s')
             else read_packet_loop n (buf @ chunk) s')
      else (Inr (Some buf), s))"
  by pat_completeness auto
termination
proof (relation "measure (\<lambda>(n, buf, s). rx_size s)")
  show "wf (measure (\<lambda>(n, buf, s). rx_size s))" by simp
next
  fix n :: int and buf :: bytes and s x1 s' chunk
  assume "(x1, s') = sock_recv (nat (n - int (length buf))) s" "x1 = Inr chunk" "chunk \<noteq> []"
  then show "((n, buf @ chunk, s'), (n, buf, s)) \<in> measure (\<lambda>(n, buf, s). rx_size s)"
    using sock_recv_progress [of "nat (n - int (length buf))" s chunk s'] by simp
qed

declare read_packet_loop.simps [simp del]

text \<open>\<^verbatim>\<open>_read_packet\<close>: the triple \<^verbatim>\<open>(req_id, pkt_type, payload)\<close>, or \<^verbatim>\<open>None\<close>.\<close>

definition read_packet :: "sock \<Rightarrow> (exn + (int \<times> int \<times> bytes) option) \<times> sock" where
  "read_packet s =
     (case read_packet_loop 4 [] s of
        (Inl e, s1) \<Rightarrow> (Inl e, s1)
      | (Inr None, s1) \<Rightarrow> (Inr None, s1)
      | (Inr (Some raw_size), s1) \<Rightarrow>
          (case unpack_i raw_size of
             Inl e \<Rightarrow> (Inl e, s1)
           | Inr size_value \<Rightarrow>
               (case read_packet_loop size_value [] s1 of
                  (Inl e, s2) \<Rightarrow> (Inl e, s2)
                | (Inr None, s2) \<Rightarrow> (Inr None, s2)
                | (Inr (Some data), s2) \<Rightarrow>
                    (bind_exn (unpack_i (py_slice data 0 4)) (\<lambda>req_id.
                     bind_exn (unpack_i (py_slice data 4 8)) (\<lambda>pkt_type.
                       (let payload = (if length data > 10 then py_slice data 8 (- 2) else [])
                        in Inr (Some (req_id, pkt_type, payload))))), s2))))"

text \<open>
  The fallback of \<^verbatim>\<open>rcon_command\<close>, taken when no instance id is given. \<open>rcon_try\<close> is
  the body of the \<^verbatim>\<open>try\<close> and \<open>rcon_direct\<close> adds the \<^verbatim>\<open>finally: sock.close()\<close>.
  \<open>rid_auth\<close> and \<open>rid_cmd\<close> are the two draws of \<^verbatim>\<open>random.randint(1, 2147483647)\<close>,
  \<open>password\<close> and \<open>command\<close> are the UTF-8 encodings, \<open>host\<close> is the \<^verbatim>\<open>str\<close> passed
  in, \<open>port\<close> is \<^verbatim>\<open>int(port)\<close> and \<open>decode\<close> is
  \<^verbatim>\<open>b.decode("utf-8", errors="replace")\<close>.
\<close>

definition SERVERDATA_AUTH :: int where
  "SERVERDATA_AUTH = 3"

definition SERVERDATA_EXECCOMMAND :: int where
  "SERVERDATA_EXECCOMMAND = 2"

definition rcon_try ::
  "(bytes \<Rightarrow> string) \<Rightarrow> (pystr \<Rightarrow> bytes option) \<Rightarrow> int \<Rightarrow> int \<Rightarrow> pystr \<Rightarrow> int \<Rightarrow> bytes \<Rightarrow> bytes \<Rightarrow>
   sock \<Rightarrow> (exn + json) \<times> sock" where
  "rcon_try decode idna rid_auth rid_cmd host port password command s0 =
     (case sock_connect idna host port s0 of
        (Inl e, s1) \<Rightarrow> (Inl e, s1)
      | (Inr u, s1) \<Rightarrow>
     (case make_packet rid_auth SERVERDATA_AUTH password of
        Inl e \<Rightarrow> (Inl e, s1)
      | Inr auth \<Rightarrow>
     (case sock_sendall auth s1 of
        (Inl e, s2) \<Rightarrow> (Inl e, s2)
      | (Inr u, s2) \<Rightarrow>
     (case read_packet s2 of
        (Inl e, s3) \<Rightarrow> (Inl e, s3)
      | (Inr pkt, s3) \<Rightarrow>
          if pkt = None \<or> fst (the pkt) = - 1 then (Inl (ConnectionError AuthFailed), s3)
          else
     (case make_packet rid_cmd SERVERDATA_EXECCOMMAND command of
        Inl e \<Rightarrow> (Inl e, s3)
      | Inr exec \<Rightarrow>
     (case sock_sendall exec s3 of
        (Inl e, s4) \<Rightarrow> (Inl e, s4)
      | (Inr u, s4) \<Rightarrow>
     (case read_packet s4 of
        (Inl e, s5) \<Rightarrow> (Inl e, s5)
      | (Inr None, s5) \<Rightarrow> (Inl (ConnectionError NoResponse), s5)
      | (Inr (Some (req_id, pkt_type, payload)), s5) \<Rightarrow>
          (Inr (JStr (decode payload)), s5))))))))"

definition rcon_direct ::
  "(bytes \<Rightarrow> string) \<Rightarrow> (pystr \<Rightarrow> bytes option) \<Rightarrow> int \<Rightarrow> int \<Rightarrow> pystr \<Rightarrow> int \<Rightarrow> bytes \<Rightarrow> bytes \<Rightarrow>
   sock \<Rightarrow> (exn + json) \<times> sock" where
  "rcon_direct decode idna rid_auth rid_cmd host port password command s0 =
     (case rcon_try decode idna rid_auth rid_cmd host port password command s0 of
        (outcome, s) \<Rightarrow> (outcome, sock_close s))"

section \<open>The daemon bridge\<close>

text \<open>
  The daemon is the answer it gives to a request and the log of the requests handed to
  the network. \<^verbatim>\<open>urlopen\<close> with \<^verbatim>\<open>resp.read()\<close> returns a body, raises
  \<^verbatim>\<open>URLError\<close> or its subclass \<^verbatim>\<open>HTTPError\<close>, or raises something else (\<open>HttpRaises\<close>: a
  timeout while the reply is read, a protocol error, a connection that the daemon drops).
  \<open>api_url\<close> is the base URL, taken to be well formed. \<open>stderr\<close> counts the lines printed
  to the error stream.
\<close>

record http_request =
  url :: string
  body :: json

datatype http_outcome =
    HttpOk bytes
  | HttpURLError
  | HttpHTTPError int bytes
  | HttpRaises exn

record world =
  api_url :: string
  respond :: "http_request \<Rightarrow> http_outcome"
  requests :: "http_request list"
  stderr :: nat

text \<open>
  Lines 80 to 91 of \<^verbatim>\<open>daemon_rcon_command\<close>: the reply's body to the value returned.
  \<open>loads\<close> is \<^verbatim>\<open>json.loads(b.decode("utf-8"))\<close> and \<open>py_str\<close> is \<^verbatim>\<open>str\<close>.
\<close>

definition daemon_reply :: "(bytes \<Rightarrow> exn + json) \<Rightarrow> (json \<Rightarrow> string) \<Rightarrow> bytes \<Rightarrow> exn + json" where
  "daemon_reply loads py_str reply =
     bind_exn (loads reply) (\<lambda>result.
     bind_exn (py_get result ''error'' JNull) (\<lambda>err.
       if truthy err then Inl (ConnectionError RconFailed)
       else
         bind_exn (py_get result ''data'' JNull) (\<lambda>response_data.
           if is_dict response_data then
             py_get response_data ''data'' (JStr (py_str response_data))
           else if response_data \<noteq> JNull then Inr (JStr (py_str response_data))
           else py_get result ''message'' (JStr []))))"

text \<open>
  The path that \<^verbatim>\<open>urlopen\<close> requests: a \<^verbatim>\<open>#\<close> in the instance id starts the fragment,
  which is cut off. Before anything is sent the path is checked: a space, a control
  character or a delete character raises \<^verbatim>\<open>http.client.InvalidURL\<close>, and a character that
  is not ASCII raises \<^verbatim>\<open>UnicodeEncodeError\<close>.
\<close>

definition request_path :: "string \<Rightarrow> string" where
  "request_path instance =
     ''/api/instance/''
     @ (if CHR ''#'' \<in> set instance then takeWhile (\<lambda>c. c \<noteq> CHR ''#'') instance
        else instance @ ''/rcon'')"

definition path_error :: "string \<Rightarrow> exn option" where
  "path_error path =
     (if list_ex (\<lambda>c. (of_char c :: nat) \<le> 0x20 \<or> (of_char c :: nat) = 0x7F) path
      then Some HTTPException
      else if list_ex (\<lambda>c. 0x80 \<le> (of_char c :: nat)) path then Some ValueError
      else None)"

text \<open>
  \<^verbatim>\<open>daemon_rcon_command\<close>. The handler for \<^verbatim>\<open>URLError\<close> comes first and so takes an
  \<^verbatim>\<open>HTTPError\<close> too; neither handler takes what \<open>daemon_reply\<close> raises, what the check
  of the path raises or what \<open>HttpRaises\<close> stands for.
\<close>

definition daemon_rcon_command ::
  "(bytes \<Rightarrow> exn + json) \<Rightarrow> (json \<Rightarrow> string) \<Rightarrow> string \<Rightarrow> string \<Rightarrow> int option \<Rightarrow> string option \<Rightarrow>
   world \<Rightarrow> (exn + json) \<times> world" where
  "daemon_rcon_command loads py_str instance command rcon_port rcon_password w =
     (let payload =
            [(''command'', JStr command)]
            @ (case rcon_port of None \<Rightarrow> [] | Some p \<Rightarrow> [(''rcon_port'', JInt p)])
            @ (case rcon_password of None \<Rightarrow> [] | Some pw \<Rightarrow> [(''rcon_password'', JStr pw)]);
          req = \<lparr>url = api_url w @ request_path instance, body = JObj payload\<rparr>;
          w' = w\<lparr>requests := requests w @ [req]\<rparr>
      in case path_error (request_path instance) of
           Some e \<Rightarrow> (Inl e, w)
         | None \<Rightarrow>
             (case respond w req of
                HttpOk reply \<Rightarrow> (daemon_reply loads py_str reply, w')
              | HttpURLError \<Rightarrow> (Inl (ConnectionError DaemonUnreachable), w')
              | HttpHTTPError code reply \<Rightarrow> (Inl (ConnectionError DaemonUnreachable), w')
              | HttpRaises e \<Rightarrow> (Inl e, w')))"

text \<open>
  \<^verbatim>\<open>rcon_command\<close>: the daemon when an instance id is given (a non-empty string),
  the direct connection otherwise.
\<close>

definition rcon_command ::
  "(bytes \<Rightarrow> exn + json) \<Rightarrow> (json \<Rightarrow> string) \<Rightarrow> (bytes \<Rightarrow> string) \<Rightarrow> (string \<Rightarrow> bytes) \<Rightarrow>
   (pystr \<Rightarrow> bytes option) \<Rightarrow> int \<Rightarrow> int \<Rightarrow> pystr \<Rightarrow> int \<Rightarrow> string \<Rightarrow> string \<Rightarrow> string option \<Rightarrow>
   world \<Rightarrow> sock \<Rightarrow> (exn + json) \<times> world \<times> sock" where
  "rcon_command loads py_str decode encode idna rid_auth rid_cmd host port password command
     instance w s0 =
     (case instance of
        Some i \<Rightarrow>
          if i \<noteq> [] then
            (case daemon_rcon_command loads py_str i command (Some port) (Some password) w of
               (outcome, w') \<Rightarrow> (outcome, w', s0))
          else
            (case rcon_direct decode idna rid_auth rid_cmd host port (encode password)
                    (encode command) s0 of
               (outcome, s) \<Rightarrow> (outcome, w, s))
      | None \<Rightarrow>
          (case rcon_direct decode idna rid_auth rid_cmd host port (encode password)
                    (encode command) s0 of
             (outcome, s) \<Rightarrow> (outcome, w, s)))"

text \<open>\<^verbatim>\<open>DaemonRconClient\<close>: its attributes and three methods.\<close>

record client =
  instance_id :: string
  host :: string
  port :: int
  password :: string
  connected :: bool

definition connect :: "client \<Rightarrow> world \<Rightarrow> bool \<times> client \<times> world" where
  "connect self w = (True, self\<lparr>connected := True\<rparr>, w)"

definition disconnect :: "client \<Rightarrow> world \<Rightarrow> unit \<times> client \<times> world" where
  "disconnect self w = ((), self\<lparr>connected := False\<rparr>, w)"

definition command ::
  "(bytes \<Rightarrow> exn + json) \<Rightarrow> (json \<Rightarrow> string) \<Rightarrow> client \<Rightarrow> string \<Rightarrow> world \<Rightarrow>
   (exn + json) \<times> client \<times> world" where
  "command loads py_str self cmd w =
     (case daemon_rcon_command loads py_str (instance_id self) cmd
             (Some (port self)) (Some (password self)) w of
        (Inl e, w') \<Rightarrow>
          if is_ConnectionError e then (Inr JNull, self, w'\<lparr>stderr := stderr w' + 1\<rparr>)
          else (Inl e, self, w')
      | (Inr response, w') \<Rightarrow> (Inr response, self, w'))"

chapter \<open>Properties\<close>

section \<open>Seven-bit groups\<close>

lemma and_127_take_bit: "(u::int) AND 127 = take_bit 7 u"
proof -
  have "(127::int) = mask 7" by (simp add: mask_eq_exp_minus_1)
  then show ?thesis by (simp add: take_bit_eq_mask)
qed

lemma low7_range: "0 \<le> (u::int) AND 127" "(u::int) AND 127 < 128"
  using take_bit_int_less_exp [of 7 u] by (simp_all add: and_127_take_bit)

lemma take7_disjoint: "take_bit 7 (u::int) AND push_bit 7 x = 0"
  by (rule bit_eqI) (auto simp add: bit_simps)

lemma low7_or_128: "((u::int) AND 127) OR 128 = (u AND 127) + 128"
  using disjunctive_add_eq_or [OF take7_disjoint [of u 1]]
  by (simp add: and_127_take_bit)

lemma cont_byte_low7: "(((u::int) AND 127) + 128) AND 127 = u AND 127"
proof -
  have "take_bit 7 (take_bit 7 u + 128) = take_bit 7 u"
    by (simp add: take_bit_eq_mod)
  then show ?thesis by (simp add: and_127_take_bit)
qed

lemma and_128_iff: "((u::int) AND 128 = 0) = (\<not> bit u 7)"
  using and_exp_eq_0_iff_not_bit [of u 7] by simp

lemma cont_byte_flag: "(((u::int) AND 127) + 128) AND 128 \<noteq> 0"
proof -
  have "bit (take_bit 7 u OR push_bit 7 1) 7"
    by (simp add: bit_simps)
  then have "bit ((u AND 127) + 128) 7"
    using low7_or_128 [of u] by (simp add: and_127_take_bit)
  then show ?thesis
    by (simp only: and_128_iff simp_thms)
qed

lemma small_flag:
  assumes "0 \<le> (u::int)" "u < 128"
  shows "u AND 128 = 0"
proof -
  have "u div 2 ^ 7 = 0"
    using assms by simp
  then have "\<not> bit u 7"
    by (simp only: bit_iff_odd) simp
  then show ?thesis
    by (simp only: and_128_iff simp_thms)
qed

lemma regroup7: "((u::int) AND 127) OR push_bit 7 (drop_bit 7 u) = u"
proof -
  have "take_bit 7 u OR push_bit 7 (drop_bit 7 u) = take_bit 7 u + push_bit 7 (drop_bit 7 u)"
    by (rule disjunctive_add_eq_or [OF take7_disjoint, symmetric])
  also have "\<dots> = u"
    using bits_ident [of 7 u] by (simp only: add.commute)
  finally show ?thesis by (simp only: and_127_take_bit)
qed

lemma small_low7:
  assumes "0 \<le> (u::int)" "drop_bit 7 u = 0"
  shows "u AND 127 = u"
  using regroup7 [of u] assms by simp

lemma small_bound:
  assumes "0 \<le> (u::int)" "drop_bit 7 u = 0"
  shows "u < 128"
  using small_low7 [OF assms] low7_range(2) [of u] by simp

lemma pack_B_low7: "pack_B ((u::int) AND 127) = Inr [word_of_int (u AND 127)]"
  using low7_range [of u] by (simp add: pack_B_def)

lemma pack_B_cont: "pack_B (((u::int) AND 127) OR 128) = Inr [word_of_int ((u AND 127) + 128)]"
  using low7_range [of u] by (simp add: pack_B_def low7_or_128)

lemma uint_byte: "0 \<le> (b::int) \<Longrightarrow> b < 256 \<Longrightarrow> uint (word_of_int b :: 8 word) = b"
  by (simp add: uint_word_of_int take_bit_int_eq_self)

lemma bit31_test:
  assumes "0 \<le> (u::int)" "u < 2 ^ 32"
  shows "(u AND push_bit 31 1 \<noteq> 0) = (2 ^ 31 \<le> u)"
proof -
  have "(u AND push_bit 31 1 \<noteq> 0) = odd (u div 2 ^ 31)"
    by (simp only: bit_iff_and_push_bit_not_eq_0 [symmetric] bit_iff_odd)
  moreover have "u div 2 ^ 31 = (if 2 ^ 31 \<le> u then 1 else 0)"
    using assms by (auto simp: div_pos_pos_trivial intro!: int_div_pos_eq [where r = "u - 2 ^ 31"])
  ultimately show ?thesis by simp
qed

section \<open>The encoder and the decoder, group by group\<close>

text \<open>
  For a non-negative value the encoder returns, appends at least one byte to what it has,
  and the decoder placed at the first of these bytes reads the value back, shifted to
  where it stands, and stops right after the last of them.
\<close>

lemma varint_loops:
  assumes "0 \<le> u"
  shows "\<exists>bs. encode_varint_loop u acc = Some (Inr (acc @ bs)) \<and> bs \<noteq> [] \<and>
           (\<forall>pre rest r shift.
              read_varint_loop (pre @ bs @ rest) (length pre) r shift =
                Inr (r OR push_bit shift u, length pre + length bs))"
  using assms
proof (induction "nat u" arbitrary: u acc rule: less_induct)
  case less
  show ?case
  proof (cases "drop_bit 7 u = 0")
    case True
    have lt: "u < 128" using small_bound [OF less.prems True] .
    have low: "u AND 127 = u" using small_low7 [OF less.prems True] .
    let ?b = "word_of_int u :: 8 word"
    have ub: "uint ?b = u" using less.prems lt by (simp add: uint_byte)
    have enc: "encode_varint_loop u acc = Some (Inr (acc @ [?b]))"
      using True pack_B_low7 [of u]
      by (subst encode_varint_loop.simps) (simp add: low)
    have dec: "read_varint_loop (pre @ [?b] @ rest) (length pre) r shift =
                 Inr (r OR push_bit shift u, length pre + length [?b])" for pre rest r shift
      using small_flag [OF less.prems lt]
      by (subst read_varint_loop.simps) (simp add: ub low del: push_bit_and)
    show ?thesis using enc dec by blast
  next
    case False
    define b :: "8 word" where "b = word_of_int ((u AND 127) + 128)"
    let ?u' = "drop_bit 7 u"
    have ub: "uint b = (u AND 127) + 128"
      unfolding b_def using low7_range [of u] by (intro uint_byte) simp_all
    have u'0: "0 \<le> ?u'" using less.prems by simp
    have "u \<noteq> 0" using False by auto
    then have pos: "0 < u" using less.prems by simp
    then have "?u' < u"
      by (simp add: drop_bit_eq_div int_div_less_self)
    then have "nat ?u' < nat u" using pos by linarith
    from less.hyps [OF this u'0, of "acc @ [b]"]
    obtain bs where
      enc': "encode_varint_loop ?u' (acc @ [b]) = Some (Inr ((acc @ [b]) @ bs))"
      and ne: "bs \<noteq> []"
      and dec': "\<And>pre rest r shift.
              read_varint_loop (pre @ bs @ rest) (length pre) r shift =
                Inr (r OR push_bit shift ?u', length pre + length bs)"
      by blast
    have pk: "pack_B ((u AND 127) OR 128) = Inr [b]"
      unfolding b_def by (rule pack_B_cont)
    have enc: "encode_varint_loop u acc = Some (Inr (acc @ (b # bs)))"
      using False pk enc'
      by (subst encode_varint_loop.simps) simp
    have dec: "read_varint_loop (pre @ (b # bs) @ rest) (length pre) r shift =
                 Inr (r OR push_bit shift u, length pre + length (b # bs))" for pre rest r shift
    proof -
      have "read_varint_loop (pre @ (b # bs) @ rest) (length pre) r shift =
              read_varint_loop (pre @ (b # bs) @ rest) (length pre + 1)
                (r OR push_bit shift (u AND 127)) (shift + 7)"
        using cont_byte_flag [of u]
        by (subst read_varint_loop.simps) (simp add: ub cont_byte_low7 del: push_bit_and)
      also have "\<dots> = read_varint_loop ((pre @ [b]) @ bs @ rest) (length (pre @ [b]))
                (r OR push_bit shift (u AND 127)) (shift + 7)"
        by simp
      also have "\<dots> = Inr ((r OR push_bit shift (u AND 127)) OR push_bit (shift + 7) ?u',
                   length (pre @ [b]) + length bs)"
        by (rule dec')
      also have "(r OR push_bit shift (u AND 127)) OR push_bit (shift + 7) ?u' =
                   r OR push_bit shift ((u AND 127) OR push_bit 7 ?u')"
        by (simp add: push_bit_or push_bit_push_bit or.assoc add.commute del: push_bit_and)
      finally show ?thesis by (simp add: regroup7)
    qed
    show ?thesis using enc dec by blast
  qed
qed

lemma encode_varint_total:
  assumes "- (2 ^ 32) \<le> v"
  shows "\<exists>bs. encode_varint v = Some (Inr bs) \<and> bs \<noteq> []"
proof -
  have "0 \<le> (if v < 0 then v + push_bit 32 1 else v)"
    using assms by simp
  from varint_loops [OF this, of "[]"] show ?thesis
    unfolding encode_varint_def by auto
qed

text \<open>
  C1. For every 32-bit signed integer \<open>v\<close>, \<^verbatim>\<open>_encode_varint(v)\<close> returns a byte
  sequence, and \<^verbatim>\<open>_read_varint\<close> on that sequence yields \<open>v\<close> with the offset advanced
  past exactly the encoded bytes; the same holds when the sequence stands anywhere inside
  a longer buffer and decoding starts at its first byte.
\<close>

theorem varint_roundtrip:
  assumes "- (2 ^ 31) \<le> v" and "v < 2 ^ 31"
  shows "\<exists>bs. encode_varint v = Some (Inr bs)
           \<and> read_varint bs 0 = Inr (v, length bs)
           \<and> (\<forall>pre rest. read_varint (pre @ bs @ rest) (length pre) =
                 Inr (v, length pre + length bs))"
proof -
  define u where "u = (if v < 0 then v + push_bit 32 1 else v)"
  have u0: "0 \<le> u" and u32: "u < 2 ^ 32"
    using assms by (simp_all add: u_def)
  from varint_loops [OF u0, of "[]"] obtain bs where
    enc: "encode_varint_loop u [] = Some (Inr bs)"
    and dec: "\<And>pre rest r shift.
            read_varint_loop (pre @ bs @ rest) (length pre) r shift =
              Inr (r OR push_bit shift u, length pre + length bs)"
    by auto
  have sign: "(if u AND push_bit 31 1 \<noteq> 0 then u - push_bit 32 1 else u) = v"
    using assms by (simp only: bit31_test [OF u0 u32]) (simp add: u_def)
  have at: "read_varint (pre @ bs @ rest) (length pre) = Inr (v, length pre + length bs)"
    for pre rest
  proof -
    have "read_varint_loop (pre @ bs @ rest) (length pre) 0 0 = Inr (u, length pre + length bs)"
      using dec [of pre rest 0 0] by simp
    then have "read_varint (pre @ bs @ rest) (length pre) =
                 Inr (if u AND push_bit 31 1 \<noteq> 0 then u - push_bit 32 1 else u,
                      length pre + length bs)"
      unfolding read_varint_def by (simp only: sum.case prod.case)
    then show ?thesis by (simp only: sign)
  qed
  have "read_varint bs 0 = Inr (v, length bs)"
    using at [of "[]" "[]"] by simp
  moreover have "encode_varint v = Some (Inr bs)"
    using enc by (simp add: encode_varint_def u_def)
  ultimately show ?thesis using at by blast
qed

theorem varint_roundtrip_witness:
  "(\<exists>bs. encode_varint 0 = Some (Inr bs) \<and> read_varint bs 0 = Inr (0, length bs))
   \<and> (\<exists>bs. encode_varint (- 1) = Some (Inr bs) \<and> read_varint bs 0 = Inr (- 1, length bs))
   \<and> (\<exists>bs. encode_varint 2147483647 = Some (Inr bs)
          \<and> read_varint bs 0 = Inr (2147483647, length bs))
   \<and> (\<exists>bs. encode_varint (- 2147483648) = Some (Inr bs)
          \<and> read_varint bs 0 = Inr (- 2147483648, length bs))"
proof -
  have a: "- (2 ^ 31) \<le> (0::int)" "(0::int) < 2 ^ 31" by simp_all
  have b: "- (2 ^ 31) \<le> (- 1::int)" "(- 1::int) < 2 ^ 31" by simp_all
  have c: "- (2 ^ 31) \<le> (2147483647::int)" "(2147483647::int) < 2 ^ 31" by simp_all
  have d: "- (2 ^ 31) \<le> (- 2147483648::int)" "(- 2147483648::int) < 2 ^ 31" by simp_all
  show ?thesis
    using varint_roundtrip [OF a] varint_roundtrip [OF b]
      varint_roundtrip [OF c] varint_roundtrip [OF d]
    by blast
qed

text \<open>
  C2, as the code has it. \<^verbatim>\<open>_encode_varint(-1)\<close> produces exactly 5 bytes, the first
  four equal to \<open>0xFF\<close> and the last equal to \<open>0x0F\<close>: the fifth group holds the four
  bits 28 to 31 of \<open>2 ^ 32 - 1\<close>.
\<close>

theorem encode_varint_minus_one:
  "encode_varint (- 1) = Some (Inr [0xFF, 0xFF, 0xFF, 0xFF, 0x0F])"
  by (simp add: encode_varint_def encode_varint_loop.simps pack_B_def)

text \<open>The last byte is not \<open>0x07\<close>.\<close>

theorem encode_varint_minus_one_not_07:
  "encode_varint (- 1) \<noteq> Some (Inr [0xFF, 0xFF, 0xFF, 0xFF, 0x07])"
  by (simp add: encode_varint_def encode_varint_loop.simps pack_B_def)

section \<open>What the decoder rejects\<close>

lemma read_varint_loop_rejects:
  "(read_varint_loop data offset r shift = Inl e) =
     (e = ValueError \<and> (\<forall>i. offset \<le> i \<and> i < length data \<longrightarrow> uint (data ! i) AND 0x80 \<noteq> 0))"
proof (induction data offset r shift rule: read_varint_loop.induct)
  case (1 data offset result shift)
  show ?case
  proof (cases "length data \<le> offset")
    case True
    then show ?thesis
      by (subst read_varint_loop.simps) auto
  next
    case False
    note inside = this
    show ?thesis
    proof (cases "uint (data ! offset) AND 0x80 = 0")
      case True
      with inside show ?thesis
        by (subst read_varint_loop.simps) (auto simp: Let_def)
    next
      case False
      have split: "(\<forall>i. offset \<le> i \<and> i < length data \<longrightarrow> uint (data ! i) AND 0x80 \<noteq> 0) =
                   (\<forall>i. offset + 1 \<le> i \<and> i < length data \<longrightarrow> uint (data ! i) AND 0x80 \<noteq> 0)"
        using False by (metis Suc_eq_plus1 Suc_leI le_neq_implies_less add_leD1)
      have "read_varint_loop data offset result shift =
              read_varint_loop data (offset + 1)
                (result OR push_bit shift (uint (data ! offset) AND 0x7F)) (shift + 7)"
        using inside False by (subst read_varint_loop.simps) (simp add: Let_def del: push_bit_and)
      then show ?thesis
        using "1.IH" [OF inside refl refl refl False] split by simp
    qed
  qed
qed

text \<open>
  C3, as the code has it. \<^verbatim>\<open>_read_varint\<close> has no limit of 5 bytes. It rejects a
  buffer, with \<^verbatim>\<open>ValueError\<close>, exactly when every byte from the offset to the end of the
  buffer has the continuation bit set (the buffer ends before the integer does); as soon
  as some byte from the offset on has the bit clear it returns a value, however many
  bytes with the bit set come first.
\<close>

theorem read_varint_rejects_iff:
  "(read_varint data offset = Inl e) =
     (e = ValueError \<and> (\<forall>i. offset \<le> i \<and> i < length data \<longrightarrow> uint (data ! i) AND 0x80 \<noteq> 0))"
proof -
  have "(read_varint data offset = Inl e) = (read_varint_loop data offset 0 0 = Inl e)"
    by (auto simp: read_varint_def split: sum.splits)
  then show ?thesis
    by (simp only: read_varint_loop_rejects)
qed

theorem read_varint_rejects_iff_witness:
  "read_varint [0xFF, 0xFF] 0 = Inl ValueError
   \<and> read_varint [0x80, 0x80, 0x80, 0x80, 0x80, 0x80, 0x01] 0 \<noteq> Inl ValueError"
proof -
  have "\<forall>i. 0 \<le> i \<and> i < length [0xFF, 0xFF :: 8 word]
          \<longrightarrow> uint ([0xFF, 0xFF :: 8 word] ! i) AND 0x80 \<noteq> 0"
    by (auto simp: less_Suc_eq nth_Cons')
  moreover have "\<not> (\<forall>i. 0 \<le> i \<and> i < length [0x80, 0x80, 0x80, 0x80, 0x80, 0x80, 0x01 :: 8 word]
          \<longrightarrow> uint ([0x80, 0x80, 0x80, 0x80, 0x80, 0x80, 0x01 :: 8 word] ! i) AND 0x80 \<noteq> 0)"
    by (auto intro!: exI [of _ 6])
  ultimately show ?thesis
    using read_varint_rejects_iff [of "[0xFF, 0xFF]" 0 ValueError]
      read_varint_rejects_iff [of "[0x80, 0x80, 0x80, 0x80, 0x80, 0x80, 0x01]" 0 ValueError]
    by blast
qed

text \<open>A sequence of six bytes whose first five have the continuation bit set is decoded.\<close>

theorem read_varint_six_bytes:
  "read_varint [0x80, 0x80, 0x80, 0x80, 0x80, 0x00] 0 = Inr (0, 6)"
  by (simp add: read_varint_def read_varint_loop.simps)

section \<open>Little-endian fields\<close>

lemma length_le_bytes: "length (le_bytes n v) = n"
  by (induction n arbitrary: v) simp_all

lemma le_int_le_bytes:
  assumes "0 \<le> v" and "v < 256 ^ n"
  shows "le_int (le_bytes n v) = v"
  using assms
proof (induction n arbitrary: v)
  case 0
  then show ?case by simp
next
  case (Suc n)
  have "0 \<le> v div 256" using Suc.prems by simp
  moreover have "v div 256 < 256 ^ n"
  proof -
    have "v < 256 * 256 ^ n" using Suc.prems by simp
    then show ?thesis by linarith
  qed
  ultimately have "le_int (le_bytes n (v div 256)) = v div 256"
    by (rule Suc.IH)
  moreover have "uint (word_of_int (v mod 256) :: 8 word) = v mod 256"
    by (simp add: uint_word_of_int take_bit_eq_mod)
  ultimately show ?case by simp
qed

lemma le_bytes_4:
  "le_bytes 4 v =
     [word_of_int (v mod 256), word_of_int (v div 256 mod 256),
      word_of_int (v div 256 div 256 mod 256), word_of_int (v div 256 div 256 div 256 mod 256)]"
proof -
  have "le_bytes (Suc (Suc (Suc (Suc 0)))) v =
     [word_of_int (v mod 256), word_of_int (v div 256 mod 256),
      word_of_int (v div 256 div 256 mod 256), word_of_int (v div 256 div 256 div 256 mod 256)]"
    by (simp only: le_bytes.simps)
  moreover have "(4::nat) = Suc (Suc (Suc (Suc 0)))" by simp
  ultimately show ?thesis by (simp only:)
qed

lemma pack_i_ok:
  assumes "- (2 ^ 31) \<le> v" and "v < 2 ^ 31"
  shows "\<exists>field. pack_i v = Inr field \<and> length field = 4 \<and> unpack_i field = Inr v"
proof -
  define u where "u = v mod 2 ^ 32"
  have u: "0 \<le> u" "u < 256 ^ 4" by (simp_all add: u_def)
  have rt: "le_int (le_bytes 4 u) = u"
    by (rule le_int_le_bytes [OF u])
  have wrap: "u = (if v < 0 then v + 2 ^ 32 else v)"
  proof (cases "v < 0")
    case True
    have "(v + 2 ^ 32) mod 2 ^ 32 = v + 2 ^ 32"
      using True assms by (intro mod_pos_pos_trivial) simp_all
    then show ?thesis using True by (simp add: u_def)
  next
    case False
    then show ?thesis using assms by (simp add: u_def mod_pos_pos_trivial)
  qed
  have "unpack_i (le_bytes 4 u) = Inr (if 2 ^ 31 \<le> u then u - 2 ^ 32 else u)"
    by (simp only: unpack_i_def length_le_bytes rt Let_def) simp
  also have "(if 2 ^ 31 \<le> u then u - 2 ^ 32 else u) = v"
    using assms by (simp add: wrap)
  finally have "unpack_i (le_bytes 4 u) = Inr v" .
  then show ?thesis
    using assms by (simp add: pack_i_def length_le_bytes u_def)
qed

lemma pack_i_raises:
  assumes "v < - (2 ^ 31) \<or> 2 ^ 31 \<le> v"
  shows "pack_i v = Inl StructError"
  using assms by (auto simp: pack_i_def)

lemma make_packet_ok:
  assumes "- (2 ^ 31) \<le> req_id" and "req_id < 2 ^ 31"
    and "- (2 ^ 31) \<le> pkt_type" and "pkt_type < 2 ^ 31"
    and "int (length payload) + 10 < 2 ^ 31"
  shows "\<exists>size_field id_field type_field.
           make_packet req_id pkt_type payload =
             Inr (size_field @ id_field @ type_field @ payload @ [0, 0])
           \<and> length size_field = 4 \<and> length id_field = 4 \<and> length type_field = 4
           \<and> unpack_i size_field = Inr (4 + 4 + int (length payload) + 2)
           \<and> unpack_i id_field = Inr req_id
           \<and> unpack_i type_field = Inr pkt_type"
proof -
  from pack_i_ok [OF assms(1,2)] obtain id_field where
    i: "pack_i req_id = Inr id_field" "length id_field = 4" "unpack_i id_field = Inr req_id"
    by blast
  from pack_i_ok [OF assms(3,4)] obtain type_field where
    t: "pack_i pkt_type = Inr type_field" "length type_field = 4"
       "unpack_i type_field = Inr pkt_type"
    by blast
  let ?body = "(id_field @ type_field) @ payload @ [0, 0]"
  have len: "int (length ?body) = 4 + 4 + int (length payload) + 2"
    using i(2) t(2) by simp
  have "- (2 ^ 31) \<le> int (length ?body)" "int (length ?body) < 2 ^ 31"
    using assms(5) len by simp_all
  from pack_i_ok [OF this] obtain size_field where
    s: "pack_i (int (length ?body)) = Inr size_field" "length size_field = 4"
       "unpack_i size_field = Inr (int (length ?body))"
    by blast
  have "make_packet req_id pkt_type payload = Inr (size_field @ ?body)"
    using i t(1,2) s(1) by (simp add: make_packet_def pack_ii_def bind_exn_def Let_def)
  then show ?thesis
    using i(2,3) t(2,3) s(2,3) len by (intro exI [of _ size_field] exI [of _ id_field] exI [of _ type_field]) simp
qed

text \<open>
  C4. For a request id and a packet type that fit a signed 32-bit field and a payload
  whose frame size fits one, \<^verbatim>\<open>_make_packet\<close> returns the 4-byte little-endian size
  \<open>4 + 4 + len(payload) + 2\<close>, the 4-byte little-endian request id, the 4-byte
  little-endian packet type, the payload and two null bytes. The authenticate frame for
  the password \<^verbatim>\<open>secret\<close> is the size 16, the request id, the type 3, the six ASCII bytes
  and two null bytes.
\<close>

theorem make_packet_layout:
  assumes "- (2 ^ 31) \<le> req_id" and "req_id < 2 ^ 31"
    and "- (2 ^ 31) \<le> pkt_type" and "pkt_type < 2 ^ 31"
    and "int (length payload) + 10 < 2 ^ 31"
  shows "(\<exists>size_field id_field type_field.
            make_packet req_id pkt_type payload =
              Inr (size_field @ id_field @ type_field @ payload @ [0, 0])
            \<and> length size_field = 4 \<and> length id_field = 4 \<and> length type_field = 4
            \<and> unpack_i size_field = Inr (4 + 4 + int (length payload) + 2)
            \<and> unpack_i id_field = Inr req_id
            \<and> unpack_i type_field = Inr pkt_type)
         \<and> (\<exists>id_field.
              make_packet req_id SERVERDATA_AUTH [0x73, 0x65, 0x63, 0x72, 0x65, 0x74] =
                Inr ([16, 0, 0, 0] @ id_field @ [3, 0, 0, 0]
                     @ [0x73, 0x65, 0x63, 0x72, 0x65, 0x74] @ [0, 0])
              \<and> length id_field = 4 \<and> unpack_i id_field = Inr req_id)"
proof -
  from pack_i_ok [OF assms(1,2)] obtain id_field where
    i: "pack_i req_id = Inr id_field" "length id_field = 4" "unpack_i id_field = Inr req_id"
    by blast
  have three: "pack_i 3 = Inr [3, 0, 0, 0]" and sixteen: "pack_i 16 = Inr [16, 0, 0, 0]"
    by (simp_all add: pack_i_def le_bytes_4)
  have "make_packet req_id SERVERDATA_AUTH [0x73, 0x65, 0x63, 0x72, 0x65, 0x74] =
          Inr ([16, 0, 0, 0] @ id_field @ [3, 0, 0, 0]
               @ [0x73, 0x65, 0x63, 0x72, 0x65, 0x74] @ [0, 0])"
    using i(1,2) three sixteen
    by (simp add: make_packet_def pack_ii_def bind_exn_def Let_def SERVERDATA_AUTH_def)
  with i(2,3) make_packet_ok [OF assms] show ?thesis by blast
qed

theorem make_packet_layout_witness:
  "make_packet 1234567 SERVERDATA_AUTH [0x73, 0x65, 0x63, 0x72, 0x65, 0x74] =
     Inr ([16, 0, 0, 0] @ [0x87, 0xD6, 0x12, 0x00] @ [3, 0, 0, 0]
          @ [0x73, 0x65, 0x63, 0x72, 0x65, 0x74] @ [0, 0])
   \<and> (\<exists>size_field id_field type_field.
         make_packet 1234567 3 [0x73, 0x65, 0x63, 0x72, 0x65, 0x74] =
           Inr (size_field @ id_field @ type_field @ [0x73, 0x65, 0x63, 0x72, 0x65, 0x74] @ [0, 0])
         \<and> unpack_i size_field = Inr 16
         \<and> unpack_i id_field = Inr 1234567
         \<and> unpack_i type_field = Inr 3)"
proof -
  have r: "- (2 ^ 31) \<le> (1234567::int)" "(1234567::int) < 2 ^ 31" by simp_all
  have t: "- (2 ^ 31) \<le> (3::int)" "(3::int) < 2 ^ 31" by simp_all
  have p: "int (length [0x73, 0x65, 0x63, 0x72, 0x65, 0x74 :: 8 word]) + 10 < 2 ^ 31" by simp
  have "make_packet 1234567 SERVERDATA_AUTH [0x73, 0x65, 0x63, 0x72, 0x65, 0x74] =
     Inr ([16, 0, 0, 0] @ [0x87, 0xD6, 0x12, 0x00] @ [3, 0, 0, 0]
          @ [0x73, 0x65, 0x63, 0x72, 0x65, 0x74] @ [0, 0])"
    by (simp add: make_packet_def pack_ii_def pack_i_def bind_exn_def Let_def
        SERVERDATA_AUTH_def le_bytes_4)
  then show ?thesis
    using make_packet_layout [OF r t p] by auto
qed

section \<open>Reassembly of partial reads\<close>

lemma sock_recv_length:
  assumes "sock_recv k s = (Inr chunk, s')"
  shows "length chunk \<le> k"
  using assms by (auto simp: sock_recv_def split: list.splits rx_event.splits)

lemma read_packet_loop_exact:
  assumes "read_packet_loop n buf s = (Inr (Some out), s')" and "int (length buf) \<le> n"
  shows "int (length out) = n"
  using assms
proof (induction n buf s rule: read_packet_loop.induct)
  case (1 n buf s)
  show ?case
  proof (cases "int (length buf) < n")
    case False
    with "1.prems" show ?thesis
      by (simp add: read_packet_loop.simps [of n buf s])
  next
    case True
    obtain r s1 where rcv: "sock_recv (nat (n - int (length buf))) s = (r, s1)"
      by (cases "sock_recv (nat (n - int (length buf))) s")
    show ?thesis
    proof (cases r)
      case (Inl e)
      with True rcv "1.prems" show ?thesis
        by (simp add: read_packet_loop.simps [of n buf s])
    next
      case (Inr chunk)
      show ?thesis
      proof (cases "chunk = []")
        case True
        with \<open>int (length buf) < n\<close> rcv Inr "1.prems" show ?thesis
          by (simp add: read_packet_loop.simps [of n buf s])
      next
        case False
        have "length chunk \<le> nat (n - int (length buf))"
          using sock_recv_length rcv Inr by blast
        then have fits: "int (length (buf @ chunk)) \<le> n"
          using True by simp
        have "read_packet_loop n (buf @ chunk) s1 = (Inr (Some out), s')"
          using True rcv Inr False "1.prems"(1)
          by (simp add: read_packet_loop.simps [of n buf s])
        from "1.IH" [OF True rcv [symmetric] Inr False this fits] show ?thesis .
      qed
    qed
  qed
qed

lemma read_packet_loop_chunks:
  assumes "rx s = map Data cs @ events" and "[] \<notin> set cs"
    and "int (length buf) \<le> n" and "n \<le> int (length buf) + int (length (concat cs))"
  shows "\<exists>cs'. read_packet_loop n buf s =
             (Inr (Some (buf @ take (nat n - length buf) (concat cs))),
              s\<lparr>rx := map Data cs' @ events\<rparr>)
           \<and> [] \<notin> set cs'
           \<and> concat cs' = drop (nat n - length buf) (concat cs)"
  using assms
proof (induction cs arbitrary: buf s)
  case Nil
  then have "\<not> int (length buf) < n" by simp
  moreover have "nat n - length buf = 0" using Nil by simp
  moreover have "s\<lparr>rx := map Data [] @ events\<rparr> = s" using Nil by simp
  ultimately show ?case
    by (intro exI [of _ "[]"]) (simp add: read_packet_loop.simps [of n buf s])
next
  case (Cons c cs)
  show ?case
  proof (cases "int (length buf) < n")
    case False
    then have "nat n - length buf = 0" by simp
    moreover have "s\<lparr>rx := map Data (c # cs) @ events\<rparr> = s" using Cons.prems(1) by simp
    ultimately show ?thesis
      using False Cons.prems(2)
      by (intro exI [of _ "c # cs"]) (simp add: read_packet_loop.simps [of n buf s])
  next
    case True
    define k where "k = nat (n - int (length buf))"
    have k: "0 < k" "k = nat n - length buf" using True by (simp_all add: k_def)
    have c: "c \<noteq> []" using Cons.prems(2) by auto
    show ?thesis
    proof (cases "length c \<le> k")
      case whole: True
      let ?s1 = "s\<lparr>rx := map Data cs @ events\<rparr>"
      have rcv: "sock_recv k s = (Inr c, ?s1)"
        using Cons.prems(1) whole by (simp add: sock_recv_def)
      have step: "read_packet_loop n buf s = read_packet_loop n (buf @ c) ?s1"
        using True rcv c by (simp add: read_packet_loop.simps [of n buf s] k_def)
      have "rx ?s1 = map Data cs @ events" by simp
      moreover have "[] \<notin> set cs" using Cons.prems(2) by simp
      moreover have "int (length (buf @ c)) \<le> n" using whole k True by simp
      moreover have "n \<le> int (length (buf @ c)) + int (length (concat cs))"
        using Cons.prems(4) by simp
      ultimately obtain cs' where
        res: "read_packet_loop n (buf @ c) ?s1 =
                (Inr (Some ((buf @ c) @ take (nat n - length (buf @ c)) (concat cs))),
                 ?s1\<lparr>rx := map Data cs' @ events\<rparr>)"
        and ne: "[] \<notin> set cs'"
        and rest: "concat cs' = drop (nat n - length (buf @ c)) (concat cs)"
        using Cons.IH [of ?s1 "buf @ c"] by blast
      have idx: "nat n - length (buf @ c) = k - length c" using k by simp
      have "take k (concat (c # cs)) = c @ take (k - length c) (concat cs)"
        using whole by simp
      moreover have "drop k (concat (c # cs)) = drop (k - length c) (concat cs)"
        using whole by simp
      ultimately show ?thesis
        using step res ne rest idx k(2)
        by (intro exI [of _ cs']) simp
    next
      case part: False
      let ?s1 = "s\<lparr>rx := map Data (drop k c # cs) @ events\<rparr>"
      have rcv: "sock_recv k s = (Inr (take k c), ?s1)"
        using Cons.prems(1) part by (simp add: sock_recv_def)
      have ne: "take k c \<noteq> []" using k(1) c by simp
      have full: "\<not> int (length (buf @ take k c)) < n"
        using part True by (simp add: k_def)
      have "read_packet_loop n buf s = read_packet_loop n (buf @ take k c) ?s1"
        using True rcv ne by (simp add: read_packet_loop.simps [of n buf s] k_def)
      also have "\<dots> = (Inr (Some (buf @ take k c)), ?s1)"
        using full by (subst read_packet_loop.simps) simp
      finally have res: "read_packet_loop n buf s = (Inr (Some (buf @ take k c)), ?s1)" .
      have "take k (concat (c # cs)) = take k c" using part by simp
      moreover have "drop k (concat (c # cs)) = drop k c @ concat cs" using part by simp
      moreover have "[] \<notin> set (drop k c # cs)" using part Cons.prems(2) by simp
      ultimately show ?thesis
        using res k(2) by (intro exI [of _ "drop k c # cs"]) simp
    qed
  qed
qed

lemma read_packet_loop_eof:
  assumes "rx s = map Data cs @ events" and "[] \<notin> set cs"
    and "events = [] \<or> (\<exists>later. events = Data [] # later)"
    and "int (length buf) + int (length (concat cs)) < n"
  shows "fst (read_packet_loop n buf s) = Inr None"
  using assms
proof (induction cs arbitrary: buf s)
  case Nil
  then have "int (length buf) < n" by simp
  moreover have "\<exists>s1. sock_recv (nat (n - int (length buf))) s = (Inr [], s1)"
    using Nil.prems(1,3) by (auto simp: sock_recv_def)
  ultimately show ?case
    by (auto simp: read_packet_loop.simps [of n buf s])
next
  case (Cons c cs)
  have short: "int (length buf) < n" using Cons.prems(4) by simp
  define k where "k = nat (n - int (length buf))"
  have c: "c \<noteq> []" using Cons.prems(2) by auto
  have whole: "length c < k" using Cons.prems(4) by (simp add: k_def)
  let ?s1 = "s\<lparr>rx := map Data cs @ events\<rparr>"
  have rcv: "sock_recv k s = (Inr c, ?s1)"
    using Cons.prems(1) whole by (simp add: sock_recv_def)
  have step: "read_packet_loop n buf s = read_packet_loop n (buf @ c) ?s1"
    using short rcv c by (simp add: read_packet_loop.simps [of n buf s] k_def)
  have "fst (read_packet_loop n (buf @ c) ?s1) = Inr None"
    using Cons.prems by (intro Cons.IH) simp_all
  with step show ?case by simp
qed

text \<open>
  C6. When the socket delivers non-empty chunks \<open>cs\<close> (of any sizes) and at least as
  many bytes as are still missing, the read loop of \<^verbatim>\<open>_read_packet\<close> returns one buffer:
  what it had, followed by exactly the missing count of bytes of the chunks in order.
  When the chunks fall short and a zero-length read follows, the loop yields \<^verbatim>\<open>None\<close>.
  Whatever the socket does, a buffer that the loop returns has exactly the requested
  length, never fewer bytes.
\<close>

theorem read_packet_loop_reassembles:
  assumes "rx s = map Data cs @ events" and "[] \<notin> set cs" and "int (length buf) \<le> n"
  shows "(n \<le> int (length buf) + int (length (concat cs)) \<longrightarrow>
            fst (read_packet_loop n buf s) =
              Inr (Some (buf @ take (nat n - length buf) (concat cs))))
         \<and> (int (length buf) + int (length (concat cs)) < n
              \<and> (events = [] \<or> (\<exists>later. events = Data [] # later)) \<longrightarrow>
            fst (read_packet_loop n buf s) = Inr None)
         \<and> (\<forall>s0 out s'. read_packet_loop n buf s0 = (Inr (Some out), s') \<longrightarrow>
              int (length out) = n)"
proof (intro conjI impI allI)
  assume "n \<le> int (length buf) + int (length (concat cs))"
  from read_packet_loop_chunks [OF assms this]
  show "fst (read_packet_loop n buf s) =
          Inr (Some (buf @ take (nat n - length buf) (concat cs)))"
    by auto
next
  assume "int (length buf) + int (length (concat cs)) < n
            \<and> (events = [] \<or> (\<exists>later. events = Data [] # later))"
  then show "fst (read_packet_loop n buf s) = Inr None"
    using read_packet_loop_eof [OF assms(1,2)] by blast
next
  fix s0 out s'
  assume "read_packet_loop n buf s0 = (Inr (Some out), s')"
  then show "int (length out) = n"
    using assms(3) by (rule read_packet_loop_exact)
qed

theorem read_packet_loop_reassembles_witness:
  "fst (read_packet_loop 6 []
          \<lparr>resolve_script = None, connect_script = None, tx_script = [],
           rx = [Data [1, 2], Data [3], Data [4, 5, 6]], sent = [], closed = False\<rparr>)
     = Inr (Some [1, 2, 3, 4, 5, 6])
   \<and> fst (read_packet_loop 6 []
          \<lparr>resolve_script = None, connect_script = None, tx_script = [],
           rx = [Data [1, 2], Data [3]], sent = [], closed = False\<rparr>)
     = Inr None"
proof -
  let ?s = "\<lparr>resolve_script = None, connect_script = None, tx_script = [],
             rx = [Data [1, 2], Data [3], Data [4, 5, 6]], sent = [], closed = False\<rparr>"
  let ?t = "\<lparr>resolve_script = None, connect_script = None, tx_script = [],
             rx = [Data [1, 2], Data [3]], sent = [], closed = False\<rparr>"
  have a: "rx ?s = map Data [[1, 2], [3], [4, 5, 6]] @ []" by simp
  have b: "[] \<notin> set [[1, 2], [3], [4, 5, 6 :: 8 word]]" by simp
  have c: "int (length ([] :: bytes)) \<le> 6" by simp
  have d: "rx ?t = map Data [[1, 2], [3]] @ []" by simp
  have e: "[] \<notin> set [[1, 2], [3 :: 8 word]]" by simp
  show ?thesis
    using read_packet_loop_reassembles [OF a b c] read_packet_loop_reassembles [OF d e c]
    by simp
qed

section \<open>A response frame, however it is delivered\<close>

lemma py_slice_nonneg:
  assumes "0 \<le> a" and "0 \<le> b"
  shows "py_slice xs a b = take (nat (b - a)) (drop (nat a) xs)"
proof (cases "a \<le> int (length xs)")
  case True
  then show ?thesis
    using assms by (cases "b \<le> int (length xs)") (simp_all add: py_slice_def Let_def min_def)
next
  case False
  then show ?thesis
    using assms by (simp add: py_slice_def Let_def min_def)
qed

lemma unpack_i_length: "unpack_i raw = Inr v \<Longrightarrow> length raw = 4"
  by (simp add: unpack_i_def split: if_splits)

lemma unpack_i_four: "length raw = 4 \<Longrightarrow> \<exists>v. unpack_i raw = Inr v"
  by (simp add: unpack_i_def Let_def)

lemma read_packet_frame:
  assumes "rx s = map Data cs @ events" and "[] \<notin> set cs"
    and "concat cs = size_field @ data @ extra"
    and "unpack_i size_field = Inr (int (length data))"
  shows "\<exists>cs'. read_packet s =
             (bind_exn (unpack_i (py_slice data 0 4)) (\<lambda>req_id.
              bind_exn (unpack_i (py_slice data 4 8)) (\<lambda>pkt_type.
                Inr (Some (req_id, pkt_type,
                           if length data > 10 then py_slice data 8 (- 2) else [])))),
              s\<lparr>rx := map Data cs' @ events\<rparr>)
           \<and> [] \<notin> set cs' \<and> concat cs' = extra"
proof -
  have four: "length size_field = 4"
    using assms(4) by (rule unpack_i_length)
  have "int (length ([] :: bytes)) \<le> 4" by simp
  moreover have "4 \<le> int (length ([] :: bytes)) + int (length (concat cs))"
    using assms(3) four by simp
  ultimately obtain cs1 where
    r1: "read_packet_loop 4 [] s =
           (Inr (Some ([] @ take (nat 4 - length ([] :: bytes)) (concat cs))),
            s\<lparr>rx := map Data cs1 @ events\<rparr>)"
    and ne1: "[] \<notin> set cs1"
    and rest1: "concat cs1 = drop (nat 4 - length ([] :: bytes)) (concat cs)"
    using read_packet_loop_chunks [OF assms(1,2), of "[]" 4] by blast
  let ?s1 = "s\<lparr>rx := map Data cs1 @ events\<rparr>"
  have r1': "read_packet_loop 4 [] s = (Inr (Some size_field), ?s1)"
    using r1 assms(3) four by simp
  have rest1': "concat cs1 = data @ extra"
    using rest1 assms(3) four by simp
  have "rx ?s1 = map Data cs1 @ events" by simp
  moreover have "int (length ([] :: bytes)) \<le> int (length data)" by simp
  moreover have "int (length data) \<le> int (length ([] :: bytes)) + int (length (concat cs1))"
    using rest1' by simp
  ultimately obtain cs2 where
    r2: "read_packet_loop (int (length data)) [] ?s1 =
           (Inr (Some ([] @ take (nat (int (length data)) - length ([] :: bytes)) (concat cs1))),
            ?s1\<lparr>rx := map Data cs2 @ events\<rparr>)"
    and ne2: "[] \<notin> set cs2"
    and rest2: "concat cs2 = drop (nat (int (length data)) - length ([] :: bytes)) (concat cs1)"
    using read_packet_loop_chunks [OF _ ne1, of ?s1 events "[]" "int (length data)"] by blast
  have r2': "read_packet_loop (int (length data)) [] ?s1 =
               (Inr (Some data), s\<lparr>rx := map Data cs2 @ events\<rparr>)"
    using r2 rest1' by simp
  have rest2': "concat cs2 = extra"
    using rest2 rest1' by simp
  have "read_packet s =
          (bind_exn (unpack_i (py_slice data 0 4)) (\<lambda>req_id.
           bind_exn (unpack_i (py_slice data 4 8)) (\<lambda>pkt_type.
             Inr (Some (req_id, pkt_type,
                        if length data > 10 then py_slice data 8 (- 2) else [])))),
           s\<lparr>rx := map Data cs2 @ events\<rparr>)"
    unfolding read_packet_def r1' by (simp add: assms(4) r2' Let_def)
  with ne2 rest2' show ?thesis by blast
qed

lemma read_packet_request_id:
  assumes "rx s = map Data cs @ events" and "[] \<notin> set cs"
    and "concat cs = size_field @ data @ extra"
    and "unpack_i size_field = Inr (int (length data))"
    and "8 \<le> length data"
    and "unpack_i (take 4 data) = Inr req_id"
  shows "\<exists>pkt_type payload cs'.
           read_packet s = (Inr (Some (req_id, pkt_type, payload)), s\<lparr>rx := map Data cs' @ events\<rparr>)"
proof -
  have a: "py_slice data 0 4 = take 4 data"
    by (simp add: py_slice_nonneg)
  have b: "py_slice data 4 8 = take 4 (drop 4 data)"
    by (simp add: py_slice_nonneg)
  have "length (take 4 (drop 4 data)) = 4"
    using assms(5) by simp
  then obtain pkt_type where t: "unpack_i (take 4 (drop 4 data)) = Inr pkt_type"
    using unpack_i_four by blast
  from read_packet_frame [OF assms(1-4)] show ?thesis
    unfolding a b by (auto simp: bind_exn_def assms(6) t)
qed

lemma sock_sendall_ok:
  assumes "tx_script s = [] \<or> (\<exists>later. tx_script s = None # later)"
  shows "\<exists>s'. sock_sendall buf s = (Inr (), s') \<and> sent s' = sent s @ [buf]
           \<and> rx s' = rx s \<and> closed s' = closed s \<and> connect_script s' = connect_script s"
  using assms by (auto simp: sock_sendall_def)

lemma sock_connect_ok:
  assumes "convert_host idna hname = Inr name" and "0 \<le> prt" and "prt \<le> 65535"
    and "resolve_script s = None" and "connect_script s = None"
  shows "sock_connect idna hname prt s = (Inr (), s)"
  using assms by (simp add: sock_connect_def)

lemma rcon_direct_rejected:
  assumes "convert_host idna hname = Inr name"
    and "0 \<le> prt" and "prt \<le> 65535"
    and "resolve_script s0 = None" and "connect_script s0 = None"
    and "tx_script s0 = [] \<or> (\<exists>later. tx_script s0 = None # later)"
    and "make_packet rid_auth SERVERDATA_AUTH pw = Inr auth"
    and "rx s0 = map Data cs @ events" and "[] \<notin> set cs"
    and "concat cs = size_field @ data @ extra"
    and "unpack_i size_field = Inr (int (length data))"
    and "8 \<le> length data"
    and "unpack_i (take 4 data) = Inr (- 1)"
  shows "\<exists>s. rcon_direct decode idna rid_auth rid_cmd hname prt pw cmd s0 =
               (Inl (ConnectionError AuthFailed), s)
             \<and> closed s \<and> sent s = sent s0 @ [auth]"
proof -
  have conn: "sock_connect idna hname prt s0 = (Inr (), s0)"
    using assms(1-5) by (rule sock_connect_ok)
  from sock_sendall_ok [OF assms(6), of auth] obtain s2 where
    snd: "sock_sendall auth s0 = (Inr (), s2)" and log: "sent s2 = sent s0 @ [auth]"
    and rx2: "rx s2 = rx s0"
    by blast
  have "rx s2 = map Data cs @ events" using rx2 assms(8) by simp
  from read_packet_request_id [OF this assms(9-13)] obtain pkt_type payload cs' where
    pkt: "read_packet s2 = (Inr (Some (- 1, pkt_type, payload)), s2\<lparr>rx := map Data cs' @ events\<rparr>)"
    by blast
  have "rcon_try decode idna rid_auth rid_cmd hname prt pw cmd s0 =
          (Inl (ConnectionError AuthFailed), s2\<lparr>rx := map Data cs' @ events\<rparr>)"
    by (simp add: rcon_try_def conn assms(7) snd pkt)
  then have "rcon_direct decode idna rid_auth rid_cmd hname prt pw cmd s0 =
          (Inl (ConnectionError AuthFailed), sock_close (s2\<lparr>rx := map Data cs' @ events\<rparr>))"
    by (simp add: rcon_direct_def)
  then show ?thesis
    using log by (auto simp: sock_close_def)
qed

text \<open>
  C5. On the fallback path of \<^verbatim>\<open>rcon_command\<close> (no instance id), once the connection
  is made (to a host that \<^verbatim>\<open>connect\<close> accepts) and the authenticate frame sent, a response frame whose request id field is
  \<open>- 1\<close> makes the call raise \<^verbatim>\<open>ConnectionError("RCON authentication failed")\<close>,
  whatever the frame's packet type and payload, the request id that was sent, the way the
  transport cuts the frame into chunks and what follows the frame. The socket is then
  closed and the authenticate frame is the only frame that was sent on it.
\<close>

theorem rcon_auth_rejected:
  assumes "inst = None \<or> inst = Some []"
    and "convert_host idna hname = Inr name"
    and "0 \<le> prt" and "prt \<le> 65535"
    and "resolve_script s0 = None" and "connect_script s0 = None"
    and "tx_script s0 = [] \<or> (\<exists>later. tx_script s0 = None # later)"
    and "1 \<le> rid_auth" and "rid_auth \<le> 2147483647"
    and "int (length (encode pw)) + 10 < 2 ^ 31"
    and "rx s0 = map Data cs @ events" and "[] \<notin> set cs"
    and "concat cs = size_field @ data @ extra"
    and "unpack_i size_field = Inr (int (length data))"
    and "8 \<le> length data"
    and "unpack_i (take 4 data) = Inr (- 1)"
  shows "\<exists>auth s.
           make_packet rid_auth SERVERDATA_AUTH (encode pw) = Inr auth
           \<and> rcon_command loads py_str decode encode idna rid_auth rid_cmd hname prt pw cmd
                 inst w s0 =
               (Inl (ConnectionError AuthFailed), w, s)
           \<and> closed s \<and> sent s = sent s0 @ [auth]"
proof -
  have "- (2 ^ 31) \<le> rid_auth" "rid_auth < 2 ^ 31"
    using assms(8,9) by simp_all
  moreover have "- (2 ^ 31) \<le> SERVERDATA_AUTH" "SERVERDATA_AUTH < 2 ^ 31"
    by (simp_all add: SERVERDATA_AUTH_def)
  ultimately obtain auth where
    auth: "make_packet rid_auth SERVERDATA_AUTH (encode pw) = Inr auth"
    using make_packet_ok [OF _ _ _ _ assms(10), of rid_auth SERVERDATA_AUTH] by blast
  from rcon_direct_rejected [OF assms(2-7) auth assms(11-16)] obtain s where
    "rcon_direct decode idna rid_auth rid_cmd hname prt (encode pw) (encode cmd) s0 =
       (Inl (ConnectionError AuthFailed), s)"
    and "closed s" and "sent s = sent s0 @ [auth]"
    by blast
  then show ?thesis
    using auth assms(1) by (auto simp: rcon_command_def)
qed

theorem rcon_auth_rejected_witness:
  "\<exists>s. rcon_command (\<lambda>reply. Inl ValueError) (\<lambda>v. []) (\<lambda>payload. [])
          (map (\<lambda>c. word_of_nat (of_char c))) (\<lambda>h. None) 1234567 7654321
          [49, 50, 55, 46, 48, 46, 48, 46, 49] 25575 ''secret'' ''list'' None
          \<lparr>api_url = ''http://127.0.0.1:57474'', respond = (\<lambda>req. HttpURLError),
           requests = [], stderr = 0\<rparr>
          \<lparr>resolve_script = None, connect_script = None, tx_script = [],
           rx = [Data [10, 0, 0, 0, 255, 255], Data [255, 255, 2, 0, 0, 0, 0, 0]],
           sent = [], closed = False\<rparr>
        = (Inl (ConnectionError AuthFailed),
           \<lparr>api_url = ''http://127.0.0.1:57474'', respond = (\<lambda>req. HttpURLError),
            requests = [], stderr = 0\<rparr>, s)
      \<and> closed s
      \<and> sent s = [[16, 0, 0, 0, 0x87, 0xD6, 0x12, 0x00, 3, 0, 0, 0,
                   0x73, 0x65, 0x63, 0x72, 0x65, 0x74, 0, 0]]"
proof -
  let ?s0 = "\<lparr>resolve_script = None, connect_script = None, tx_script = [],
              rx = [Data [10, 0, 0, 0, 255, 255], Data [255, 255, 2, 0, 0, 0, 0, 0]],
              sent = [], closed = False\<rparr>"
  let ?encode = "map (\<lambda>c. word_of_nat (of_char c)) :: string \<Rightarrow> bytes"
  let ?data = "[255, 255, 255, 255, 2, 0, 0, 0, 0, 0] :: bytes"
  have h1: "(None :: string option) = None \<or> (None :: string option) = Some []" by simp
  have h0: "convert_host (\<lambda>h. None) [49, 50, 55, 46, 48, 46, 48, 46, 49] =
              Inr [49, 50, 55, 46, 48, 46, 48, 46, 49]"
    by (simp add: convert_host_def)
  have h2: "(0::int) \<le> 25575" "(25575::int) \<le> 65535" by simp_all
  have h3: "resolve_script ?s0 = None" "connect_script ?s0 = None" by simp_all
  have h4: "tx_script ?s0 = [] \<or> (\<exists>later. tx_script ?s0 = None # later)" by simp
  have h5: "(1::int) \<le> 1234567" "(1234567::int) \<le> 2147483647" by simp_all
  have h6: "int (length (?encode ''secret'')) + 10 < 2 ^ 31" by simp
  have h7: "rx ?s0 = map Data [[10, 0, 0, 0, 255, 255], [255, 255, 2, 0, 0, 0, 0, 0]] @ []"
    by simp
  have h8: "[] \<notin> set [[10, 0, 0, 0, 255, 255], [255, 255, 2, 0, 0, 0, 0, 0 :: 8 word]]"
    by simp
  have h9: "concat [[10, 0, 0, 0, 255, 255], [255, 255, 2, 0, 0, 0, 0, 0 :: 8 word]] =
              [10, 0, 0, 0] @ ?data @ []"
    by simp
  have h10: "unpack_i [10, 0, 0, 0] = Inr (int (length ?data))"
    by (simp add: unpack_i_def)
  have h11: "8 \<le> length ?data" by simp
  have h12: "unpack_i (take 4 ?data) = Inr (- 1)"
    by (simp add: unpack_i_def)
  have frame: "make_packet 1234567 SERVERDATA_AUTH (?encode ''secret'') =
                 Inr [16, 0, 0, 0, 0x87, 0xD6, 0x12, 0x00, 3, 0, 0, 0,
                      0x73, 0x65, 0x63, 0x72, 0x65, 0x74, 0, 0]"
    by (simp add: make_packet_def pack_ii_def pack_i_def bind_exn_def Let_def
        SERVERDATA_AUTH_def le_bytes_4)
  show ?thesis
    using rcon_auth_rejected [where encode = ?encode and pw = "''secret''"
        and loads = "\<lambda>reply. Inl ValueError" and py_str = "\<lambda>v. []"
        and decode = "\<lambda>payload. []" and rid_cmd = 7654321 and cmd = "''list''"
        and w = "\<lparr>api_url = ''http://127.0.0.1:57474'', respond = (\<lambda>req. HttpURLError),
             requests = [], stderr = 0\<rparr>",
        OF h1 h0 h2 h3 h4 h5 h6 h7 h8 h9 h10 h11 h12]
    unfolding frame by auto
qed

section \<open>\<^verbatim>\<open>ping\<close>: what it returns and what it leaves behind\<close>

lemma bind_res_Some [simp]: "bind_res (Some (Inr x)) f = f x"
  by (simp add: bind_res_def)

lemma handshake_packet_ok:
  assumes "utf8_encode hname = Inr host_bytes" and "0 \<le> prt" and "prt \<le> 65535"
  shows "\<exists>handshake. handshake_packet hname prt = Some (Inr handshake)"
proof -
  obtain a where a: "encode_varint (- 1) = Some (Inr a)"
    using encode_varint_total [of "- 1"] by auto
  obtain b where b: "encode_varint (int (length host_bytes)) = Some (Inr b)"
    using encode_varint_total [of "int (length host_bytes)"] by auto
  obtain c where c: "pack_H prt = Inr c"
    using assms by (simp add: pack_H_def)
  obtain d where d: "encode_varint 1 = Some (Inr d)"
    using encode_varint_total [of 1] by auto
  obtain e where e: "encode_varint 0 = Some (Inr e)"
    using encode_varint_total [of 0] by auto
  obtain f where f: "encode_varint (int (length (e @ a @ b @ host_bytes @ c @ d))) = Some (Inr f)"
    using encode_varint_total [of "int (length (e @ a @ b @ host_bytes @ c @ d))"] by auto
  show ?thesis
    unfolding handshake_packet_def a assms(1) b c d e bind_res_Some Let_def f by simp
qed

lemma status_request_packet_value: "status_request_packet = Some (Inr [1, 0])"
  by (simp add: status_request_packet_def encode_varint_def encode_varint_loop.simps pack_B_def)

lemma sock_sendall_keeps:
  assumes "sock_sendall buf s = (outcome, s')"
  shows "rx s' = rx s \<and> closed s' = closed s"
  using assms by (auto simp: sock_sendall_def split: list.splits option.splits)

lemma sock_sendall_raises:
  assumes "sock_sendall buf s = (Inl e, s')"
  shows "is_OSError e"
proof -
  have "is_OSError (raised err)" for err by (cases err) simp_all
  then show ?thesis
    using assms by (auto simp: sock_sendall_def split: list.splits option.splits)
qed

lemma sock_recv_raises:
  assumes "sock_recv k s = (Inl e, s')"
  shows "is_OSError e \<and> closed s' = closed s"
proof -
  have "is_OSError (raised err)" for err by (cases err) simp_all
  then show ?thesis
    using assms by (auto simp: sock_recv_def split: list.splits rx_event.splits)
qed

lemma sock_recv_delivered:
  assumes "sock_recv k s = (Inr chunk, s')" and "chunk \<noteq> []"
  shows "delivered (rx s) = chunk @ delivered (rx s')"
proof (cases "rx s")
  case Nil
  with assms show ?thesis by (simp add: sock_recv_def)
next
  case (Cons ev events)
  show ?thesis
  proof (cases ev)
    case (Fail err)
    with Cons assms show ?thesis by (simp add: sock_recv_def)
  next
    case (Data c)
    with Cons assms have chunk: "chunk = take k c"
      and s': "rx s' = (if drop k c = [] then events else Data (drop k c) # events)"
      by (auto simp: sock_recv_def)
    have c: "c \<noteq> []" using chunk assms(2) by auto
    show ?thesis
    proof (cases "drop k c = []")
      case True
      then have "take k c = c" by simp
      with Cons Data c chunk s' True show ?thesis by simp
    next
      case False
      have "take k c @ drop k c = c" by simp
      with Cons Data c chunk s' False show ?thesis
        by (simp del: append_take_drop_id)
    qed
  qed
qed

text \<open>
  The loop leaves with an exception only when a read fails, and then the socket is as
  open as it was; it returns a document only from a parse of the bytes read so far, and
  whenever it returns the socket is closed.
\<close>

lemma ping_loop_outcome:
  "(\<forall>e s'. ping_loop loads data s = (Inl e, s') \<longrightarrow> is_OSError e \<and> closed s' = closed s)
   \<and> (\<forall>r s'. ping_loop loads data s = (Inr r, s') \<longrightarrow>
         closed s'
         \<and> (r \<noteq> JNull \<longrightarrow>
              (\<exists>d rest. d \<noteq> [] \<and> delivered (rx s) = d @ rest
                 \<and> parse_response loads (data @ d) = Inr r)))"
proof (induction loads data s rule: ping_loop.induct)
  case (1 loads data s)
  obtain outcome s1 where rcv: "sock_recv 4096 s = (outcome, s1)"
    by (cases "sock_recv 4096 s")
  show ?case
  proof (cases outcome)
    case (Inl e)
    then show ?thesis
      using rcv sock_recv_raises [of 4096 s e s1]
      by (simp add: ping_loop.simps [of loads data s])
  next
    case (Inr chunk)
    note rcv' = rcv [unfolded Inr]
    show ?thesis
    proof (cases "chunk = []")
      case True
      then show ?thesis
        using rcv' by (simp add: ping_loop.simps [of loads data s] sock_close_def)
    next
      case False
      note del = sock_recv_delivered [OF rcv' False]
      have keep: "closed s1 = closed s"
        using rcv' by (auto simp: sock_recv_def split: list.splits rx_event.splits)
      show ?thesis
      proof (cases "parse_response loads (data @ chunk)")
        case (Inl e)
        have step: "ping_loop loads data s = ping_loop loads (data @ chunk) s1"
          using rcv' False Inl by (simp add: ping_loop.simps [of loads data s])
        from "1.IH"(1) [OF rcv [symmetric] Inr False Inl]
        show ?thesis
          unfolding step keep del by (metis append.assoc append_is_Nil_conv)
      next
        case parsed: (Inr parsed)
        show ?thesis
        proof (cases "parsed = JNull")
          case True
          have step: "ping_loop loads data s = ping_loop loads (data @ chunk) s1"
            using rcv' False parsed True by (simp add: ping_loop.simps [of loads data s])
          from "1.IH"(2) [OF rcv [symmetric] Inr False parsed] True
          show ?thesis
            unfolding step keep del by (metis append.assoc append_is_Nil_conv)
        next
          case nonnull: False
          have "ping_loop loads data s = (Inr parsed, sock_close s1)"
            using rcv' False parsed nonnull by (simp add: ping_loop.simps [of loads data s])
          moreover have "delivered (rx s) = chunk @ delivered (rx s1)" by (rule del)
          ultimately show ?thesis
            using parsed False by (auto simp: sock_close_def)
        qed
      qed
    qed
  qed
qed

lemma ping_loop_continues:
  assumes "sock_recv 4096 s = (Inr chunk, s')" and "chunk \<noteq> []"
    and "parse_response loads (data @ chunk) = Inr JNull
         \<or> (\<exists>e. parse_response loads (data @ chunk) = Inl e)"
  shows "ping_loop loads data s = ping_loop loads (data @ chunk) s'"
  using assms by (auto simp: ping_loop.simps [of loads data s])

lemma read_varint_raises:
  assumes "read_varint d k = Inl x"
  shows "x = ValueError"
proof -
  have "read_varint_loop d k 0 0 = Inl x"
    using assms by (auto simp: read_varint_def split: sum.splits)
  then show ?thesis by (simp add: read_varint_loop_rejects)
qed

lemma parse_response_raises:
  assumes "parse_response loads data = Inl e"
  shows "\<not> is_ValueError e \<and> (\<exists>slice. loads slice = Inl e)"
proof -
  have "read_varint d k = Inl x \<Longrightarrow> is_ValueError x" for d k x
    using read_varint_raises [of d k x] by simp
  then show ?thesis
    using assms
    by (auto simp: parse_response_def parse_response_try_def
        split: sum.splits if_splits prod.splits)
qed

text \<open>
  \<^verbatim>\<open>_parse_response\<close>, path by path. The declared packet length \<open>pkt_len\<close> is used
  in one place only, the test that the buffer is long enough; the document is cut out by
  the inner length \<open>json_len\<close> alone.
\<close>

lemma parse_response_paths:
  "(\<forall>e. read_varint data 0 = Inl e \<longrightarrow> parse_response loads data = Inr JNull)
   \<and> (\<forall>pkt_len off. read_varint data 0 = Inr (pkt_len, off)
          \<and> int (length data) < int off + pkt_len \<longrightarrow>
        parse_response loads data = Inr JNull)
   \<and> (\<forall>pkt_len off e. read_varint data 0 = Inr (pkt_len, off)
          \<and> read_varint data off = Inl e \<longrightarrow>
        parse_response loads data = Inr JNull)
   \<and> (\<forall>pkt_len off pkt_id off'. read_varint data 0 = Inr (pkt_len, off)
          \<and> read_varint data off = Inr (pkt_id, off') \<and> pkt_id \<noteq> 0 \<longrightarrow>
        parse_response loads data = Inr JNull)
   \<and> (\<forall>pkt_len off off' e. read_varint data 0 = Inr (pkt_len, off)
          \<and> read_varint data off = Inr (0, off') \<and> read_varint data off' = Inl e \<longrightarrow>
        parse_response loads data = Inr JNull)
   \<and> (\<forall>pkt_len off off' json_len off'' e. read_varint data 0 = Inr (pkt_len, off)
          \<and> \<not> int (length data) < int off + pkt_len
          \<and> read_varint data off = Inr (0, off')
          \<and> read_varint data off' = Inr (json_len, off'')
          \<and> loads (py_slice data (int off'') (int off'' + json_len)) = Inl e \<longrightarrow>
        parse_response loads data = (if is_ValueError e then Inr JNull else Inl e))
   \<and> (\<forall>pkt_len off off' json_len off'' doc. read_varint data 0 = Inr (pkt_len, off)
          \<and> \<not> int (length data) < int off + pkt_len
          \<and> read_varint data off = Inr (0, off')
          \<and> read_varint data off' = Inr (json_len, off'')
          \<and> loads (py_slice data (int off'') (int off'' + json_len)) = Inr doc \<longrightarrow>
        parse_response loads data = Inr doc)"
proof -
  have "read_varint d k = Inl x \<Longrightarrow> is_ValueError x" for d k x
    using read_varint_raises [of d k x] by simp
  then show ?thesis
    by (auto simp: parse_response_def parse_response_try_def)
qed

section \<open>\<^verbatim>\<open>ping\<close>: the loop over the chunks received\<close>

lemma sock_recv_whole_chunk:
  assumes "rx s = Data c # later" and "c \<noteq> []" and "length c \<le> k"
  shows "sock_recv k s = (Inr c, s\<lparr>rx := later\<rparr>)"
  using assms by (simp add: sock_recv_def)

lemma ping_loop_chunks:
  assumes "rx s = map Data cs @ events" and "list_all (\<lambda>c. c \<noteq> [] \<and> length c \<le> 4096) cs"
  shows "(first_parse loads acc cs \<noteq> JNull \<longrightarrow>
            (\<exists>s'. ping_loop loads acc s = (Inr (first_parse loads acc cs), s')))
         \<and> (first_parse loads acc cs = JNull \<longrightarrow>
              ping_loop loads acc s = ping_loop loads (acc @ concat cs) (s\<lparr>rx := events\<rparr>))"
  using assms
proof (induction cs arbitrary: acc s)
  case Nil
  then have "s\<lparr>rx := events\<rparr> = s" by simp
  then show ?case by simp
next
  case (Cons c cs)
  let ?s1 = "s\<lparr>rx := map Data cs @ events\<rparr>"
  have c: "c \<noteq> []" "length c \<le> 4096" using Cons.prems(2) by simp_all
  have rcv: "sock_recv 4096 s = (Inr c, ?s1)"
    using Cons.prems(1) c by (intro sock_recv_whole_chunk) simp_all
  have rest: "rx ?s1 = map Data cs @ events" by simp
  have ok: "list_all (\<lambda>c. c \<noteq> [] \<and> length c \<le> 4096) cs" using Cons.prems(2) by simp
  note IH = Cons.IH [OF rest ok, of "acc @ c"]
  have again: "?s1\<lparr>rx := events\<rparr> = s\<lparr>rx := events\<rparr>" by simp
  show ?case
  proof (cases "parse_response loads (acc @ c)")
    case (Inl e)
    have "ping_loop loads acc s = ping_loop loads (acc @ c) ?s1"
      using rcv c(1) Inl by (simp add: ping_loop.simps [of loads acc s])
    then show ?thesis
      using IH Inl by (simp add: again)
  next
    case (Inr doc)
    show ?thesis
    proof (cases "doc = JNull")
      case True
      have "ping_loop loads acc s = ping_loop loads (acc @ c) ?s1"
        using rcv c(1) Inr True by (simp add: ping_loop.simps [of loads acc s])
      then show ?thesis
        using IH Inr True by (simp add: again)
    next
      case False
      have "ping_loop loads acc s = (Inr doc, sock_close ?s1)"
        using rcv c(1) Inr False by (simp add: ping_loop.simps [of loads acc s])
      then show ?thesis
        using Inr False by simp
    qed
  qed
qed

lemma ping_loop_at_end:
  assumes "rx s = events"
    and "events = [] \<or> (\<exists>later. events = Data [] # later) \<or> (\<exists>err later. events = Fail err # later)"
  shows "(\<exists>s'. ping_loop loads acc s = (Inr JNull, s'))
         \<or> (\<exists>e s'. ping_loop loads acc s = (Inl e, s') \<and> is_OSError e)"
proof -
  have "is_OSError (raised err)" for err by (cases err) simp_all
  then show ?thesis
    using assms by (auto simp: ping_loop.simps [of loads acc s] sock_recv_def)
qed

lemma first_parse_none:
  assumes "\<forall>j. 0 < j \<and> j \<le> length cs \<longrightarrow> no_document loads (acc @ concat (take j cs))"
  shows "first_parse loads acc cs = JNull"
  using assms
proof (induction cs arbitrary: acc)
  case Nil
  then show ?case by simp
next
  case (Cons c cs)
  have one: "no_document loads (acc @ c)"
    using Cons.prems [rule_format, of 1] by simp
  have "\<forall>j. 0 < j \<and> j \<le> length cs \<longrightarrow> no_document loads ((acc @ c) @ concat (take j cs))"
  proof (intro allI impI)
    fix j assume "0 < j \<and> j \<le> length cs"
    then show "no_document loads ((acc @ c) @ concat (take j cs))"
      using Cons.prems [rule_format, of "Suc j"] by simp
  qed
  from Cons.IH [OF this] one show ?case
    by (auto simp: no_document_def split: sum.splits)
qed

lemma first_parse_least:
  assumes "0 < k" and "k \<le> length cs"
    and "parse_response loads (acc @ concat (take k cs)) = Inr doc" and "doc \<noteq> JNull"
    and "\<forall>j. 0 < j \<and> j < k \<longrightarrow> no_document loads (acc @ concat (take j cs))"
  shows "first_parse loads acc cs = doc"
  using assms
proof (induction cs arbitrary: acc k)
  case Nil
  then show ?case by simp
next
  case (Cons c cs)
  show ?case
  proof (cases "k = 1")
    case True
    then show ?thesis using Cons.prems(3,4) by simp
  next
    case False
    then obtain k' where k: "k = Suc k'" "0 < k'" using Cons.prems(1) by (cases k) auto
    have one: "no_document loads (acc @ c)"
      using Cons.prems(5) [rule_format, of 1] k by simp
    have "\<forall>j. 0 < j \<and> j < k' \<longrightarrow> no_document loads ((acc @ c) @ concat (take j cs))"
    proof (intro allI impI)
      fix j assume "0 < j \<and> j < k'"
      then show "no_document loads ((acc @ c) @ concat (take j cs))"
        using Cons.prems(5) [rule_format, of "Suc j"] k by simp
    qed
    moreover have "parse_response loads ((acc @ c) @ concat (take k' cs)) = Inr doc"
      using Cons.prems(3) k by simp
    moreover have "k' \<le> length cs" using Cons.prems(2) k by simp
    ultimately have "first_parse loads (acc @ c) cs = doc"
      using Cons.IH [OF k(2) _ _ Cons.prems(4)] by blast
    with one show ?thesis
      by (auto simp: no_document_def split: sum.splits)
  qed
qed

section \<open>\<^verbatim>\<open>ping\<close>: what it returns\<close>

lemma sock_sendall_returns:
  assumes "sock_sendall buf s = (Inr u, s')"
  shows "(tx_script s = [] \<and> tx_script s' = [])
         \<or> (\<exists>later. tx_script s = None # later \<and> tx_script s' = later)"
  using assms by (auto simp: sock_sendall_def split: list.splits option.splits)

lemma sock_sendall_succeeds:
  assumes "tx_script s = [] \<or> (\<exists>later. tx_script s = None # later)"
  shows "\<exists>s'. sock_sendall buf s = (Inr (), s') \<and> rx s' = rx s \<and> closed s' = closed s
           \<and> tx_script s' = tl (tx_script s)"
  using assms by (auto simp: sock_sendall_def)

text \<open>
  With a host and a port that \<^verbatim>\<open>connect\<close> accepts, \<^verbatim>\<open>ping\<close> returns: a value, never
  an exception. A failing resolution, connection or send gives \<^verbatim>\<open>None\<close>. The value
  is a document only when the loop parsed it out of the bytes delivered, and then the
  socket is closed.
\<close>

lemma ping_outcome:
  assumes "convert_host idna hname = Inr name" and "utf8_encode hname = Inr host_bytes"
    and "0 \<le> prt" and "prt \<le> 65535"
  shows "\<exists>r s. ping loads idna hname prt s0 = Some (Inr r, s)
           \<and> (resolve_script s0 \<noteq> None \<longrightarrow> r = JNull)
           \<and> (connect_script s0 \<noteq> None \<longrightarrow> r = JNull)
           \<and> ((\<exists>err later. tx_script s0 = Some err # later) \<longrightarrow> r = JNull)
           \<and> ((\<exists>err later. tx_script s0 = None # Some err # later) \<longrightarrow> r = JNull)
           \<and> (r \<noteq> JNull \<longrightarrow>
                closed s
                \<and> (\<exists>d rest. d \<noteq> [] \<and> delivered (rx s0) = d @ rest
                      \<and> parse_response loads d = Inr r))"
proof -
  have os: "is_OSError (raised err)" for err by (cases err) simp_all
  have range: "\<not> (prt < - (2 ^ 31) \<or> 2 ^ 31 \<le> prt)" "\<not> (prt < 0 \<or> 65535 < prt)"
    using assms(3,4) by simp_all
  show ?thesis
  proof (cases "resolve_script s0")
    case (Some err)
    then have "ping loads idna hname prt s0 = Some (Inr JNull, s0)"
      using assms(1) range os [of err] by (simp add: ping_def ping_try_def sock_connect_def)
    then show ?thesis by simp
  next
    case resolved: None
    show ?thesis
    proof (cases "connect_script s0")
      case (Some err)
      then have "ping loads idna hname prt s0 = Some (Inr JNull, s0)"
        using assms(1) range resolved os [of err]
        by (simp add: ping_def ping_try_def sock_connect_def)
      then show ?thesis by simp
    next
      case None
      have conn: "sock_connect idna hname prt s0 = (Inr (), s0)"
        using assms(1,3,4) resolved None by (rule sock_connect_ok)
      obtain handshake where hs: "handshake_packet hname prt = Some (Inr handshake)"
        using handshake_packet_ok [OF assms(2-4)] by blast
      obtain o1 s1 where snd1: "sock_sendall handshake s0 = (o1, s1)"
        by (cases "sock_sendall handshake s0")
      note keep1 = sock_sendall_keeps [OF snd1]
      show ?thesis
      proof (cases o1)
        case (Inl e)
        then have "is_OSError e" using snd1 sock_sendall_raises by blast
        then have "ping loads idna hname prt s0 = Some (Inr JNull, s1)"
          using Inl by (simp add: ping_def ping_try_def conn hs snd1)
        then show ?thesis by simp
      next
        case (Inr u)
        note tx1 = sock_sendall_returns [OF snd1 [unfolded Inr]]
        obtain o2 s2 where snd2: "sock_sendall [1, 0] s1 = (o2, s2)"
          by (cases "sock_sendall [1, 0] s1")
        note keep2 = sock_sendall_keeps [OF snd2]
        show ?thesis
        proof (cases o2)
          case (Inl e)
          then have "is_OSError e" using snd2 sock_sendall_raises by blast
          then have "ping loads idna hname prt s0 = Some (Inr JNull, s2)"
            using Inl Inr
            by (simp add: ping_def ping_try_def conn hs snd1 status_request_packet_value snd2)
          then show ?thesis by simp
        next
          case sent2: (Inr u2)
          note tx2 = sock_sendall_returns [OF snd2 [unfolded sent2]]
          have sends_ok: "\<not> (\<exists>err later. tx_script s0 = Some err # later)"
            "\<not> (\<exists>err later. tx_script s0 = None # Some err # later)"
            using tx1 tx2 by auto
          obtain o3 s3 where loop: "ping_loop loads [] s2 = (o3, s3)"
            by (cases "ping_loop loads [] s2")
          have tried: "ping_try loads idna hname prt s0 = Some (o3, s3)"
            using Inr sent2
            by (simp add: ping_try_def conn hs snd1 status_request_packet_value snd2 loop)
          have rx2: "rx s2 = rx s0" using keep1 keep2 by simp
          show ?thesis
          proof (cases o3)
            case (Inl e)
            then have "is_OSError e"
              using ping_loop_outcome [of loads "[]" s2] loop by blast
            then have "ping loads idna hname prt s0 = Some (Inr JNull, s3)"
              using Inl by (simp add: ping_def tried)
            then show ?thesis by simp
          next
            case (Inr r)
            then have res: "ping loads idna hname prt s0 = Some (Inr r, s3)"
              by (simp add: ping_def tried)
            have "closed s3
                  \<and> (r \<noteq> JNull \<longrightarrow>
                       (\<exists>d rest. d \<noteq> [] \<and> delivered (rx s2) = d @ rest
                          \<and> parse_response loads ([] @ d) = Inr r))"
              using ping_loop_outcome [of loads "[]" s2] loop Inr by blast
            then show ?thesis
              using res resolved None sends_ok by (simp add: rx2)
          qed
        qed
      qed
    qed
  qed
qed

text \<open>
  Once connected and with both packets sent, the result is the first document that the
  accumulated chunks parse into, and \<^verbatim>\<open>None\<close> when there is none and the stream ends.
\<close>

lemma ping_exact:
  assumes "convert_host idna hname = Inr name" and "utf8_encode hname = Inr host_bytes"
    and "0 \<le> prt" and "prt \<le> 65535"
    and "resolve_script s0 = None" and "connect_script s0 = None"
    and "tx_script s0 = [] \<or> tx_script s0 = [None] \<or> (\<exists>later. tx_script s0 = None # None # later)"
    and "rx s0 = map Data cs @ events" and "list_all (\<lambda>c. c \<noteq> [] \<and> length c \<le> 4096) cs"
  shows "(first_parse loads [] cs \<noteq> JNull \<longrightarrow>
            (\<exists>s. ping loads idna hname prt s0 = Some (Inr (first_parse loads [] cs), s)))
         \<and> (first_parse loads [] cs = JNull
              \<and> (events = [] \<or> (\<exists>later. events = Data [] # later)
                    \<or> (\<exists>err later. events = Fail err # later)) \<longrightarrow>
            (\<exists>s. ping loads idna hname prt s0 = Some (Inr JNull, s)))"
proof -
  have conn: "sock_connect idna hname prt s0 = (Inr (), s0)"
    using assms(1,3,4,5,6) by (rule sock_connect_ok)
  obtain handshake where hs: "handshake_packet hname prt = Some (Inr handshake)"
    using handshake_packet_ok [OF assms(2-4)] by blast
  have "tx_script s0 = [] \<or> (\<exists>later. tx_script s0 = None # later)"
    using assms(7) by auto
  from sock_sendall_succeeds [OF this, of handshake] obtain s1 where
    snd1: "sock_sendall handshake s0 = (Inr (), s1)" and rx1: "rx s1 = rx s0"
    and tx1: "tx_script s1 = tl (tx_script s0)"
    by blast
  have "tx_script s1 = [] \<or> (\<exists>later. tx_script s1 = None # later)"
    using assms(7) tx1 by auto
  from sock_sendall_succeeds [OF this, of "[1, 0]"] obtain s2 where
    snd2: "sock_sendall [1, 0] s1 = (Inr (), s2)" and rx2: "rx s2 = rx s1"
    by blast
  have tried: "ping_try loads idna hname prt s0 = Some (ping_loop loads [] s2)"
    by (simp add: ping_try_def conn hs snd1 status_request_packet_value snd2)
  have rx: "rx s2 = map Data cs @ events" using rx1 rx2 assms(8) by simp
  note chunks = ping_loop_chunks [OF rx assms(9), of loads "[]"]
  show ?thesis
  proof (intro conjI impI)
    assume "first_parse loads [] cs \<noteq> JNull"
    with chunks obtain s' where "ping_loop loads [] s2 = (Inr (first_parse loads [] cs), s')"
      by blast
    then have "ping loads idna hname prt s0 = Some (Inr (first_parse loads [] cs), s')"
      by (simp add: ping_def tried)
    then show "\<exists>s. ping loads idna hname prt s0 = Some (Inr (first_parse loads [] cs), s)"
      by blast
  next
    assume a: "first_parse loads [] cs = JNull
              \<and> (events = [] \<or> (\<exists>later. events = Data [] # later)
                    \<or> (\<exists>err later. events = Fail err # later))"
    then have step: "ping_loop loads [] s2 = ping_loop loads ([] @ concat cs) (s2\<lparr>rx := events\<rparr>)"
      using chunks by blast
    have "rx (s2\<lparr>rx := events\<rparr>) = events" by simp
    from ping_loop_at_end [OF this, of loads "[] @ concat cs"] a
    have "(\<exists>s'. ping_loop loads [] s2 = (Inr JNull, s'))
          \<or> (\<exists>e s'. ping_loop loads [] s2 = (Inl e, s') \<and> is_OSError e)"
      unfolding step by blast
    then show "\<exists>s. ping loads idna hname prt s0 = Some (Inr JNull, s)"
      by (auto simp: ping_def tried)
  qed
qed




text \<open>
  The same length with the bytes in two reads: the first parse finds a slice that is not
  a document yet and the loop goes on; the second read completes it.
\<close>

lemma ping_undercounting_length:
  "ping (\<lambda>b. if b = [0x7B, 0x22, 0x61, 0x22, 0x3A, 0x31, 0x7D]
                    then Inr (JObj [(''a'', JInt 1)]) else Inl ValueError) (\<lambda>h. None)
     [49, 50, 55, 46, 48, 46, 48, 46, 49] 25565
     \<lparr>resolve_script = None, connect_script = None, tx_script = [],
      rx = [Data [3, 0, 7, 0x7B, 0x22], Data [0x61, 0x22, 0x3A, 0x31, 0x7D]],
      sent = [], closed = False\<rparr>
   = Some (Inr (JObj [(''a'', JInt 1)]),
       \<lparr>resolve_script = None, connect_script = None, tx_script = [], rx = [],
        sent = [[0x13, 0x00, 0xFF, 0xFF, 0xFF, 0xFF, 0x0F, 0x09,
                 0x31, 0x32, 0x37, 0x2E, 0x30, 0x2E, 0x30, 0x2E, 0x31, 0x63, 0xDD, 0x01],
                [1, 0]],
        closed = True\<rparr>)"
  by (simp add: ping_def ping_try_def sock_connect_def convert_host_def utf8_char_def bind_exn_def
      sock_sendall_def sock_recv_def
      sock_close_def handshake_packet_def status_request_packet_def encode_varint_def
      encode_varint_loop.simps pack_B_def pack_H_def ping_loop.simps parse_response_def
      parse_response_try_def read_varint_def read_varint_loop.simps py_slice_def Let_def)

text \<open>A host with a null character: \<^verbatim>\<open>connect\<close> raises \<^verbatim>\<open>TypeError\<close>, which no handler takes.\<close>

lemma ping_raises_on_null_in_host:
  "ping loads idna [97, 0, 98] 25565 s0 = Some (Inl TypeError, s0)"
  by (simp add: ping_def ping_try_def sock_connect_def convert_host_def)

section \<open>\<^verbatim>\<open>ping\<close>: the socket on the exception path\<close>

text \<open>
  C7 fails on the code. The two calls of \<^verbatim>\<open>sock.close()\<close> stand inside the \<^verbatim>\<open>try\<close>,
  on the paths that return, and the handler for \<^verbatim>\<open>OSError\<close> returns \<^verbatim>\<open>None\<close> without
  closing. When the read times out, and when the connection is refused, \<^verbatim>\<open>ping\<close>
  returns \<^verbatim>\<open>None\<close> and the socket has not been closed.
\<close>

theorem ping_leaves_socket_open:
  "(\<exists>s. ping loads idna [49, 50, 55, 46, 48, 46, 48, 46, 49] 25565
           \<lparr>resolve_script = None, connect_script = None, tx_script = [],
            rx = [Fail SockTimeout], sent = [], closed = False\<rparr>
         = Some (Inr JNull, s) \<and> \<not> closed s)
   \<and> (\<exists>s. ping loads idna [49, 50, 55, 46, 48, 46, 48, 46, 49] 25565
           \<lparr>resolve_script = None, connect_script = Some SockError, tx_script = [], rx = [],
            sent = [], closed = False\<rparr>
         = Some (Inr JNull, s) \<and> \<not> closed s)"
proof -
  have "ping loads idna [49, 50, 55, 46, 48, 46, 48, 46, 49] 25565
           \<lparr>resolve_script = None, connect_script = None, tx_script = [],
            rx = [Fail SockTimeout], sent = [], closed = False\<rparr>
         = Some (Inr JNull,
             \<lparr>resolve_script = None, connect_script = None, tx_script = [], rx = [],
              sent = [[0x13, 0x00, 0xFF, 0xFF, 0xFF, 0xFF, 0x0F, 0x09,
                 0x31, 0x32, 0x37, 0x2E, 0x30, 0x2E, 0x30, 0x2E, 0x31, 0x63, 0xDD, 0x01],
                      [1, 0]],
              closed = False\<rparr>)"
    by (simp add: ping_def ping_try_def sock_connect_def convert_host_def utf8_char_def bind_exn_def
      sock_sendall_def sock_recv_def
      sock_close_def handshake_packet_def status_request_packet_def encode_varint_def
      encode_varint_loop.simps pack_B_def pack_H_def ping_loop.simps parse_response_def
      parse_response_try_def read_varint_def read_varint_loop.simps py_slice_def Let_def)
  moreover have "ping loads idna [49, 50, 55, 46, 48, 46, 48, 46, 49] 25565
           \<lparr>resolve_script = None, connect_script = Some SockError, tx_script = [], rx = [],
            sent = [], closed = False\<rparr>
         = Some (Inr JNull,
             \<lparr>resolve_script = None, connect_script = Some SockError, tx_script = [],
              rx = [], sent = [], closed = False\<rparr>)"
    by (simp add: ping_def ping_try_def sock_connect_def convert_host_def)
  ultimately show ?thesis by simp
qed

text \<open>On the paths that return from inside the \<^verbatim>\<open>try\<close> the socket is closed.\<close>

lemma ping_closes_when_loop_returns:
  assumes "ping_try loads idna hname prt s0 = Some (Inr r, s)"
  shows "ping loads idna hname prt s0 = Some (Inr r, s) \<and> closed s"
proof -
  have "closed s"
    using assms ping_loop_outcome [of loads "[]"]
    by (auto simp: ping_try_def split: prod.splits sum.splits option.splits)
  then show ?thesis using assms by (simp add: ping_def)
qed

section \<open>\<^verbatim>\<open>status\<close>: the fields of the document\<close>

lemma sample_names_objects:
  "sample_names (map JObj entries) = Inr (map (\<lambda>e. dict_get e ''name'' (JStr [])) entries)"
  by (induction entries) (simp_all add: bind_exn_def)

lemma status_online_fields:
  assumes "dict_get doc ''players'' (JObj []) = JObj players"
    and "dict_get doc ''version'' (JObj []) = JObj version_info"
    and "dict_get players ''sample'' (JArr []) = JArr (map JObj entries)"
  shows "status_online pid_value (JObj doc) =
           Inr \<lparr>pid = pid_value,
                players_online = dict_get players ''online'' (JInt 0),
                players_max = dict_get players ''max'' (JInt 0),
                player_list = map (\<lambda>e. dict_get e ''name'' (JStr [])) entries,
                version = dict_get version_info ''name'' (JStr ''unknown''),
                protocol = dict_get version_info ''protocol'' (JInt (- 1)),
                motd = (case dict_get doc ''description'' (JStr []) of
                          JObj d \<Rightarrow> dict_get d ''text'' (JStr [])
                        | v \<Rightarrow> v)\<rparr>"
proof -
  have desc: "bind_exn (if is_dict v then py_get v ''text'' (JStr []) else Inr v) f =
                f (case v of JObj d \<Rightarrow> dict_get d ''text'' (JStr []) | v \<Rightarrow> v)" for v f
    by (cases v) (simp_all add: bind_exn_def)
  show ?thesis
    unfolding status_online_def
    by (simp add: bind_exn_def assms sample_names_objects desc [unfolded bind_exn_def])
qed

text \<open>
  C9. When \<^verbatim>\<open>ping\<close> returns a non-empty JSON object whose \<^verbatim>\<open>players\<close> and
  \<^verbatim>\<open>version\<close> entries are objects and whose \<^verbatim>\<open>players.sample\<close> is a list of
  objects (each entry taken as absent gives its default), \<^verbatim>\<open>status\<close> returns the
  running record with \<^verbatim>\<open>players.online\<close>, \<^verbatim>\<open>players.max\<close>, the \<^verbatim>\<open>name\<close> of each
  entry of \<^verbatim>\<open>players.sample\<close>, \<^verbatim>\<open>version.name\<close> and \<^verbatim>\<open>version.protocol\<close>; the
  motd is the \<^verbatim>\<open>text\<close> entry of \<^verbatim>\<open>description\<close> when that is an object and
  \<^verbatim>\<open>description\<close> itself otherwise, so a bare string is the motd.
\<close>

theorem status_extracts_fields:
  assumes "ping loads idna (cfg_host cfg) (cfg_port cfg) s0 = Some (Inr (JObj doc), s)"
    and "doc \<noteq> []"
    and "dict_get doc ''players'' (JObj []) = JObj players"
    and "dict_get doc ''version'' (JObj []) = JObj version_info"
    and "dict_get players ''sample'' (JArr []) = JArr (map JObj entries)"
  shows "status loads idna os_kill cfg s0 =
           Some (Running
                   \<lparr>pid = cfg_pid cfg,
                    players_online = dict_get players ''online'' (JInt 0),
                    players_max = dict_get players ''max'' (JInt 0),
                    player_list = map (\<lambda>e. dict_get e ''name'' (JStr [])) entries,
                    version = dict_get version_info ''name'' (JStr ''unknown''),
                    protocol = dict_get version_info ''protocol'' (JInt (- 1)),
                    motd = (case dict_get doc ''description'' (JStr []) of
                              JObj d \<Rightarrow> dict_get d ''text'' (JStr [])
                            | v \<Rightarrow> v)\<rparr>, s)"
  unfolding status_def assms(1)
  using assms(2) status_online_fields [OF assms(3-5)]
  by (simp add: status_of_ping_def)

lemma scenario_ping:
  "ping scenario_loads (\<lambda>h. None) [49, 50, 55, 46, 48, 46, 48, 46, 49] 25565
     \<lparr>resolve_script = None, connect_script = None, tx_script = [],
      rx = [Data ([0x81, 0x01, 0x00, 0x7F] @ take 50 scenario_text),
            Data (drop 50 scenario_text)],
      sent = [], closed = False\<rparr>
   = Some (Inr scenario_document,
       \<lparr>resolve_script = None, connect_script = None, tx_script = [], rx = [],
        sent = [[0x13, 0x00, 0xFF, 0xFF, 0xFF, 0xFF, 0x0F, 0x09,
                 0x31, 0x32, 0x37, 0x2E, 0x30, 0x2E, 0x30, 0x2E, 0x31, 0x63, 0xDD, 0x01],
                [1, 0]],
        closed = True\<rparr>)"
  by (simp add: ping_def ping_try_def sock_connect_def convert_host_def utf8_char_def
      bind_exn_def sock_sendall_def sock_recv_def
      sock_close_def handshake_packet_def status_request_packet_def encode_varint_def
      encode_varint_loop.simps pack_B_def pack_H_def ping_loop.simps parse_response_def
      parse_response_try_def read_varint_def read_varint_loop.simps py_slice_def Let_def
      scenario_loads_def scenario_text_def scenario_document_def)

theorem status_extracts_fields_witness:
  "\<exists>s. status scenario_loads (\<lambda>h. None) (\<lambda>p. None)
          \<lparr>cfg_pid = JInt 4242, cfg_port = 25565,
           cfg_host = [49, 50, 55, 46, 48, 46, 48, 46, 49]\<rparr>
          \<lparr>resolve_script = None, connect_script = None, tx_script = [],
           rx = [Data ([0x81, 0x01, 0x00, 0x7F] @ take 50 scenario_text),
                 Data (drop 50 scenario_text)],
           sent = [], closed = False\<rparr>
        = Some (Running
                  \<lparr>pid = JInt 4242, players_online = JInt 3, players_max = JInt 20,
                   player_list = [JStr ''Steve''], version = JStr ''1.21'',
                   protocol = JInt 767, motd = JStr ''A Server''\<rparr>, s)"
proof -
  let ?cfg = "\<lparr>cfg_pid = JInt 4242, cfg_port = 25565,
               cfg_host = [49, 50, 55, 46, 48, 46, 48, 46, 49]\<rparr>"
  let ?doc = "[(''players'', JObj [(''online'', JInt 3), (''max'', JInt 20),
                               (''sample'', JArr [JObj [(''name'', JStr ''Steve'')]])]),
           (''version'', JObj [(''name'', JStr ''1.21''), (''protocol'', JInt 767)]),
           (''description'', JStr ''A Server'')]"
  let ?players = "[(''online'', JInt 3), (''max'', JInt 20),
                   (''sample'', JArr [JObj [(''name'', JStr ''Steve'')]])]"
  let ?version = "[(''name'', JStr ''1.21''), (''protocol'', JInt 767)]"
  have h1: "ping scenario_loads (\<lambda>h. None) (cfg_host ?cfg) (cfg_port ?cfg)
              \<lparr>resolve_script = None, connect_script = None, tx_script = [],
               rx = [Data ([0x81, 0x01, 0x00, 0x7F] @ take 50 scenario_text),
                     Data (drop 50 scenario_text)],
               sent = [], closed = False\<rparr>
            = Some (Inr (JObj ?doc),
                \<lparr>resolve_script = None, connect_script = None, tx_script = [], rx = [],
                 sent = [[0x13, 0x00, 0xFF, 0xFF, 0xFF, 0xFF, 0x0F, 0x09,
                          0x31, 0x32, 0x37, 0x2E, 0x30, 0x2E, 0x30, 0x2E, 0x31, 0x63, 0xDD, 0x01],
                         [1, 0]],
                 closed = True\<rparr>)"
    using scenario_ping by (simp add: scenario_document_def)
  have h2: "?doc \<noteq> []" by simp
  have h3: "dict_get ?doc ''players'' (JObj []) = JObj ?players"
    by (simp add: dict_get_def)
  have h4: "dict_get ?doc ''version'' (JObj []) = JObj ?version"
    by (simp add: dict_get_def)
  have h5: "dict_get ?players ''sample'' (JArr []) = JArr (map JObj [[(''name'', JStr ''Steve'')]])"
    by (simp add: dict_get_def)
  show ?thesis
    using status_extracts_fields [OF h1 h2 h3 h4 h5, of "\<lambda>p. None"]
    by (simp add: dict_get_def)
qed

text \<open>The other form of the description: an object with a \<^verbatim>\<open>text\<close> entry.\<close>

lemma status_description_object:
  "status_of_ping os_kill (JInt 4242)
     (JObj [(''players'', JObj [(''online'', JInt 3), (''max'', JInt 20)]),
            (''description'', JObj [(''text'', JStr ''A Server'')])])
   = Running \<lparr>pid = JInt 4242, players_online = JInt 3, players_max = JInt 20,
              player_list = [], version = JStr ''unknown'', protocol = JInt (- 1),
              motd = JStr ''A Server''\<rparr>"
  by (simp add: status_of_ping_def status_online_def bind_exn_def dict_get_def)

section \<open>\<^verbatim>\<open>DaemonRconClient\<close>\<close>

text \<open>
  \<^verbatim>\<open>connect()\<close> returns \<^verbatim>\<open>True\<close>, sets the flag and leaves the world as it is (no
  request is made); \<^verbatim>\<open>disconnect()\<close> clears the flag and does nothing else.
\<close>

lemma connect_disconnect:
  "connect self w = (True, self\<lparr>connected := True\<rparr>, w)
   \<and> disconnect self w = ((), self\<lparr>connected := False\<rparr>, w)"
  by (simp add: connect_def disconnect_def)

text \<open>
  \<^verbatim>\<open>command()\<close> makes the one call of the daemon bridge: a \<^verbatim>\<open>ConnectionError\<close> from
  it becomes \<^verbatim>\<open>None\<close>, a value is returned as it is, and an exception of any other
  class goes on to the caller.
\<close>

lemma command_outcomes:
  "(\<forall>m w'. daemon_rcon_command loads py_str (instance_id self) cmd
                  (Some (port self)) (Some (password self)) w = (Inl (ConnectionError m), w')
         \<longrightarrow> command loads py_str self cmd w = (Inr JNull, self, w'\<lparr>stderr := stderr w' + 1\<rparr>))
   \<and> (\<forall>v w'. daemon_rcon_command loads py_str (instance_id self) cmd
                  (Some (port self)) (Some (password self)) w = (Inr v, w')
         \<longrightarrow> command loads py_str self cmd w = (Inr v, self, w'))
   \<and> (\<forall>e w'. daemon_rcon_command loads py_str (instance_id self) cmd
                  (Some (port self)) (Some (password self)) w = (Inl e, w')
               \<and> \<not> is_ConnectionError e
         \<longrightarrow> command loads py_str self cmd w = (Inl e, self, w'))
   \<and> (\<forall>e self' w'. command loads py_str self cmd w = (Inl e, self', w')
         \<longrightarrow> \<not> is_ConnectionError e)"
  by (auto simp: command_def split: prod.splits sum.splits if_splits)

text \<open>
  The failures that the bridge reports as \<^verbatim>\<open>ConnectionError\<close>: the daemon cannot be
  reached, it answers with an HTTP error status, it drops the connection, or its reply
  carries an \<^verbatim>\<open>error\<close> entry. In each of them \<^verbatim>\<open>command()\<close> returns \<^verbatim>\<open>None\<close>.
\<close>

lemma command_none_on_reported_failure:
  assumes "path_error (request_path (instance_id self)) = None"
    and "req = \<lparr>url = api_url w @ request_path (instance_id self),
                  body = JObj [(''command'', JStr cmd), (''rcon_port'', JInt (port self)),
                               (''rcon_password'', JStr (password self))]\<rparr>"
    and "respond w req = HttpURLError
         \<or> (\<exists>code reply. respond w req = HttpHTTPError code reply)
         \<or> (\<exists>m. respond w req = HttpRaises (ConnectionError m))
         \<or> (\<exists>reply result err. respond w req = HttpOk reply \<and> loads reply = Inr (JObj result)
               \<and> map_of result ''error'' = Some err \<and> truthy err)"
  shows "command loads py_str self cmd w =
           (Inr JNull, self, w\<lparr>requests := requests w @ [req], stderr := stderr w + 1\<rparr>)"
  using assms
  by (auto simp: command_def daemon_rcon_command_def daemon_reply_def bind_exn_def Let_def
      dict_get_def)

text \<open>
  C10 fails on the code. \<^verbatim>\<open>command()\<close> is documented to return the response text
  or \<^verbatim>\<open>None\<close> on failure, and the bridge to raise \<^verbatim>\<open>ConnectionError\<close> when the command
  fails; but a reply whose body is not JSON makes \<^verbatim>\<open>json.loads\<close> raise inside the
  bridge, where neither handler takes it, and \<^verbatim>\<open>command()\<close>, which catches
  \<^verbatim>\<open>ConnectionError\<close> only, raises it to its caller.
\<close>

theorem command_raises_on_bad_reply:
  "command (\<lambda>reply. Inl ValueError) (\<lambda>v. [])
          \<lparr>instance_id = ''mc1'', host = ''127.0.0.1'', port = 25575, password = ''secret'',
           connected = True\<rparr>
          ''list''
          \<lparr>api_url = ''http://127.0.0.1:57474'',
           respond = (\<lambda>req. HttpOk [0x3C, 0x68, 0x74, 0x6D, 0x6C, 0x3E]),
           requests = [], stderr = 0\<rparr>
   = (Inl ValueError,
      \<lparr>instance_id = ''mc1'', host = ''127.0.0.1'', port = 25575, password = ''secret'',
       connected = True\<rparr>,
      \<lparr>api_url = ''http://127.0.0.1:57474'',
       respond = (\<lambda>req. HttpOk [0x3C, 0x68, 0x74, 0x6D, 0x6C, 0x3E]),
       requests = [\<lparr>url = ''http://127.0.0.1:57474/api/instance/mc1/rcon'',
                    body = JObj [(''command'', JStr ''list''), (''rcon_port'', JInt 25575),
                                 (''rcon_password'', JStr ''secret'')]\<rparr>],
       stderr = 0\<rparr>)"
  by (simp add: command_def daemon_rcon_command_def daemon_reply_def bind_exn_def Let_def
      request_path_def path_error_def)

text \<open>The daemon unreachable: the failure that \<^verbatim>\<open>command()\<close> does turn into \<^verbatim>\<open>None\<close>.\<close>

lemma command_none_when_unreachable:
  "command (\<lambda>reply. Inl ValueError) (\<lambda>v. [])
     \<lparr>instance_id = ''mc1'', host = ''127.0.0.1'', port = 25575, password = ''secret'',
      connected = False\<rparr>
     ''list''
     \<lparr>api_url = ''http://127.0.0.1:57474'', respond = (\<lambda>req. HttpURLError),
      requests = [], stderr = 0\<rparr>
   = (Inr JNull,
      \<lparr>instance_id = ''mc1'', host = ''127.0.0.1'', port = 25575, password = ''secret'',
       connected = False\<rparr>,
      \<lparr>api_url = ''http://127.0.0.1:57474'', respond = (\<lambda>req. HttpURLError),
       requests = [\<lparr>url = ''http://127.0.0.1:57474/api/instance/mc1/rcon'',
                    body = JObj [(''command'', JStr ''list''), (''rcon_port'', JInt 25575),
                                 (''rcon_password'', JStr ''secret'')]\<rparr>],
       stderr = 1\<rparr>)"
  by (simp add: command_def daemon_rcon_command_def Let_def request_path_def path_error_def)

text \<open>
  Three more replies and requests on which \<^verbatim>\<open>command()\<close> raises: a reply that is JSON
  but not an object (\<^verbatim>\<open>result.get\<close> raises \<^verbatim>\<open>AttributeError\<close>), a timeout while the
  reply is read, and an instance id with a space, for which \<^verbatim>\<open>InvalidURL\<close> is raised
  before any request is made.
\<close>

lemma command_raises_on_list_reply:
  "fst (command (\<lambda>reply. Inr (JArr [])) (\<lambda>v. [])
          \<lparr>instance_id = ''mc1'', host = ''127.0.0.1'', port = 25575, password = ''secret'',
           connected = True\<rparr>
          ''list''
          \<lparr>api_url = ''http://127.0.0.1:57474'',
           respond = (\<lambda>req. HttpOk [0x5B, 0x5D]),
           requests = [], stderr = 0\<rparr>)
   = Inl AttributeError"
  by (simp add: command_def daemon_rcon_command_def daemon_reply_def bind_exn_def Let_def
      request_path_def path_error_def)

lemma command_raises_on_read_timeout:
  "fst (command loads py_str
          \<lparr>instance_id = ''mc1'', host = ''127.0.0.1'', port = 25575, password = ''secret'',
           connected = True\<rparr>
          ''list''
          \<lparr>api_url = ''http://127.0.0.1:57474'',
           respond = (\<lambda>req. HttpRaises SocketTimeout),
           requests = [], stderr = 0\<rparr>)
   = Inl SocketTimeout"
  by (simp add: command_def daemon_rcon_command_def Let_def request_path_def path_error_def)

lemma command_raises_on_invalid_url:
  "command loads py_str
     \<lparr>instance_id = ''a b'', host = ''127.0.0.1'', port = 25575, password = ''secret'',
      connected = True\<rparr>
     ''list'' w
   = (Inl HTTPException,
      \<lparr>instance_id = ''a b'', host = ''127.0.0.1'', port = 25575, password = ''secret'',
       connected = True\<rparr>, w)"
  by (simp add: command_def daemon_rcon_command_def Let_def request_path_def path_error_def)

end
